theory Spec2Isabelle
  imports Complex_Main "HOL-Library.Sublist"
begin

section \<open>Shared vocabulary of the harness (src/harness/types.ts)\<close>

text \<open>
  JavaScript strings are modelled as \<^typ>\<open>string\<close>: one \<^typ>\<open>char\<close> per UTF-16 code
  unit, restricted to the code units below 256. \<open>length\<close> is the \<open>.length\<close> of the source.
\<close>

datatype RiskLevel = low | medium | high | critical

datatype VerifierOutcome = pass | minor_fix | critical_fail | abstain

record VerificationVerdict =
  runId :: string
  verifier :: string
  outcome :: VerifierOutcome
  findings :: "string list"
  requiredActions :: "string list"
  evidenceRefs :: "string list"

text \<open>A rejected promise or thrown exception carries its message.\<close>

datatype error = Error string

text \<open>
  JavaScript values that are serialised with \<open>JSON.stringify\<close> or come out of
  \<open>JSON.parse\<close>. Event payloads are kept as such values, before serialisation.
\<close>

datatype json =
    JNull
  | JBool bool
  | JNum real
  | JStr string
  | JArr "json list"
  | JObj "(string \<times> json) list"



section \<open>The relational store (src/harness/db.ts, src/harness/repository.ts)\<close>

text \<open>
  Each table is the list of its rows in insertion order. \<open>TEXT\<close> columns are strings,
  \<open>INTEGER\<close> columns are integers, and a column without \<open>NOT NULL\<close> that a query below
  tests for \<open>NULL\<close> is an option. The auto-increment \<open>id\<close> of the append-only tables is
  the position of the row. \<open>clock\<close> is the reading of \<open>Date.now()\<close>; \<open>spawned\<close> lists the
  child processes started so far, each with its argv.
\<close>

record TaskRunRow =
  run_id :: string
  task_id :: string
  channel :: string
  sender :: string
  sender_id :: "string option"
  conversation_id :: string
  branch_key :: string
  objective :: string
  risk_level :: string
  status :: string
  assigned_agent :: string
  loop_iteration :: int
  max_iterations :: int
  verifier_outcome :: "string option"
  result_text :: "string option"
  created_at :: int
  updated_at :: int

record LogRow =
  log_key :: string
  log_type :: string
  payload_json :: json
  log_created_at :: int

record MemoryRow =
  record_id :: string
  user_id :: string
  category :: string
  key :: string
  val :: string
  confidence :: real
  source_run_id :: string
  mem_created_at :: int
  mem_updated_at :: int

record PermissionRow =
  permission_id :: string
  perm_user_id :: string
  subject :: string
  action :: string
  resource :: string
  perm_status :: string
  perm_created_at :: int
  perm_updated_at :: int

record ToolRow =
  tool_id :: string
  name :: string
  source :: string
  trust_class :: string
  tool_status :: string
  last_verified_at :: int
  metadata_json :: json
  tool_created_at :: int
  tool_updated_at :: int

record ChannelPendingMessageRow =
  message_id :: string
  pm_channel :: string
  pm_sender :: string
  pm_sender_id :: string
  chat_ref :: string
  reply_ref :: string
  expires_at :: int
  pm_created_at :: int
  pm_updated_at :: int

record MetricRow =
  metric_name :: string
  metric_value :: real
  metric_updated_at :: int

record MetricEventRow =
  me_metric_name :: string
  delta :: real
  me_metadata_json :: json
  me_created_at :: int

record harness_state =
  clock :: int
  task_runs :: "TaskRunRow list"
  task_steps :: "LogRow list"
  task_events :: "LogRow list"
  memory_records :: "MemoryRow list"
  permissions :: "PermissionRow list"
  tool_registry :: "ToolRow list"
  tool_events :: "LogRow list"
  channel_pending_messages :: "ChannelPendingMessageRow list"
  harness_metrics :: "MetricRow list"
  harness_metric_events :: "MetricEventRow list"
  spawned :: "(string \<times> string list) list"

definition now :: "'a harness_state_scheme \<Rightarrow> int" where
  "now s = clock s"

text \<open>
  \<open>db.upsert(table, values, conflictCols, updateCols)\<close>: \<open>INSERT ... ON CONFLICT(key) DO
  UPDATE SET col = excluded.col\<close>. \<open>merge old new\<close> is the old row with the update
  columns taken from the new one.
\<close>

definition upsert :: "('r \<Rightarrow> 'k) \<Rightarrow> ('r \<Rightarrow> 'r \<Rightarrow> 'r) \<Rightarrow> 'r \<Rightarrow> 'r list \<Rightarrow> 'r list" where
  "upsert keyOf merge new rows =
     (if list_ex (\<lambda>r. keyOf r = keyOf new) rows
      then map (\<lambda>r. if keyOf r = keyOf new then merge r new else r) rows
      else rows @ [new])"

text \<open>\<open>db.update(table, values, where)\<close>.\<close>

definition update_where :: "('r \<Rightarrow> bool) \<Rightarrow> ('r \<Rightarrow> 'r) \<Rightarrow> 'r list \<Rightarrow> 'r list" where
  "update_where cond assign rows = map (\<lambda>r. if cond r then assign r else r) rows"



section \<open>The generator-verifier-reviser loop (src/harness/runtime/loop-engine.ts)\<close>






text \<open>\<open>s.slice(0, n)\<close> for a non-negative \<open>n\<close>.\<close>

definition slice0 :: "nat \<Rightarrow> string \<Rightarrow> string" where
  "slice0 n s = take n s"








text \<open>An empty store at clock 1000.\<close>

definition empty_state :: harness_state where
  "empty_state = \<lparr>clock = 1000, task_runs = [], task_steps = [], task_events = [],
     memory_records = [], permissions = [], tool_registry = [], tool_events = [],
     channel_pending_messages = [], harness_metrics = [], harness_metric_events = [],
     spawned = []\<rparr>"

section \<open>Queries on task runs (src/harness/repository.ts)\<close>

text \<open>
  \<open>ORDER BY updated_at ASC\<close> sorts the selected rows by \<open>updated_at\<close>; rows with equal
  \<open>updated_at\<close> stay in the order in which the scan of the table yields them. The rows
  supersedeNeedsInputRuns selects have one status and come in table order. The rows
  listBlockedRunsForOutreach selects have two statuses, and the order in which the scan
  yields them is the engine's choice: it is the parameter \<open>scanRank\<close> of the query, rows of
  equal rank coming in table order.
\<close>

definition needsInputBefore :: "string \<Rightarrow> string \<Rightarrow> int \<Rightarrow> TaskRunRow \<Rightarrow> bool" where
  "needsInputBefore ch senderId beforeTs r =
     (channel r = ch \<and> sender_id r = Some senderId
      \<and> status r = ''needs_input'' \<and> updated_at r < beforeTs)"

definition supersedeNeedsInputRuns ::
  "string \<Rightarrow> string \<Rightarrow> int \<Rightarrow> 'a harness_state_scheme \<Rightarrow> string list \<times> 'a harness_state_scheme" where
  "supersedeNeedsInputRuns ch senderId beforeTs s =
     (if senderId = [] then ([], s)
      else
        (let rows = take 200 (sort_key updated_at
                       (filter (needsInputBefore ch senderId beforeTs) (task_runs s)));
             t = now s
         in if rows = [] then ([], s)
            else (map run_id rows,
                  fold (\<lambda>row st. st\<lparr>task_runs :=
                           update_where (\<lambda>r. run_id r = run_id row)
                             (\<lambda>r. r\<lparr>status := ''rejected'', updated_at := t\<rparr>) (task_runs st)\<rparr>)
                    rows s)))"

record BlockedRunRow =
  br_run_id :: string
  br_channel :: string
  br_sender :: string
  br_sender_id :: string
  br_status :: string
  br_objective :: string
  br_result_text :: string
  br_created_at :: int
  br_updated_at :: int

text \<open>\<open>COALESCE(column, '')\<close>.\<close>

definition coalesce :: "string option \<Rightarrow> string" where
  "coalesce v = (case v of None \<Rightarrow> [] | Some x \<Rightarrow> x)"

definition blockedRow :: "TaskRunRow \<Rightarrow> BlockedRunRow" where
  "blockedRow tr = \<lparr>br_run_id = run_id tr, br_channel = channel tr, br_sender = sender tr,
     br_sender_id = coalesce (sender_id tr), br_status = status tr, br_objective = objective tr,
     br_result_text = coalesce (result_text tr), br_created_at = created_at tr,
     br_updated_at = updated_at tr\<rparr>"

text \<open>The \<open>NOT EXISTS\<close> subquery: a sibling run created after \<open>tr\<close> was last updated.\<close>

definition hasNewerSibling :: "TaskRunRow list \<Rightarrow> TaskRunRow \<Rightarrow> bool" where
  "hasNewerSibling runs tr =
     list_ex (\<lambda>newer. channel newer = channel tr
                \<and> sender_id newer \<noteq> None \<and> sender_id newer = sender_id tr
                \<and> run_id newer \<noteq> run_id tr
                \<and> created_at newer > updated_at tr) runs"

definition blockedForOutreach :: "TaskRunRow list \<Rightarrow> int \<Rightarrow> TaskRunRow \<Rightarrow> bool" where
  "blockedForOutreach runs cutoff tr =
     ((status tr = ''needs_input'' \<or> status tr = ''awaiting_approval'')
      \<and> sender_id tr \<noteq> None
      \<and> sender_id tr \<noteq> Some []
      \<and> updated_at tr \<le> cutoff
      \<and> \<not> hasNewerSibling runs tr)"

definition listBlockedRunsForOutreach ::
  "(TaskRunRow \<Rightarrow> nat) \<Rightarrow> int \<Rightarrow> int \<Rightarrow> 'a harness_state_scheme \<Rightarrow> BlockedRunRow list" where
  "listBlockedRunsForOutreach scanRank minAgeMs limit s =
     (let cutoff = now s - max 0 minAgeMs
      in map blockedRow
           (take (nat (max 1 (min limit 1000)))
              (sort_key updated_at
                 (sort_key scanRank
                    (filter (blockedForOutreach (task_runs s) cutoff) (task_runs s))))))"

text \<open>A scan through the index on \<open>status\<close>: awaiting_approval comes before needs_input.\<close>

definition statusRank :: "TaskRunRow \<Rightarrow> nat" where
  "statusRank r = (if status r = ''awaiting_approval'' then 0 else 1)"

text \<open>A run of sender \<open>u1\<close> on the channel \<open>telegram\<close>.\<close>

definition mkRun :: "string \<Rightarrow> string \<Rightarrow> int \<Rightarrow> int \<Rightarrow> TaskRunRow" where
  "mkRun rid st created updated =
     \<lparr>run_id = rid, task_id = ''task'', channel = ''telegram'', sender = ''Ann'',
      sender_id = Some ''u1'', conversation_id = [], branch_key = [], objective = ''book a table'',
      risk_level = ''low'', status = st, assigned_agent = ''default'', loop_iteration = 1,
      max_iterations = 1, verifier_outcome = None, result_text = None,
      created_at = created, updated_at = updated\<rparr>"

text \<open>201 blocked runs of the same sender, run \<open>i\<close> last updated at time \<open>i\<close>.\<close>

definition crowded_state :: harness_state where
  "crowded_state = empty_state\<lparr>task_runs :=
     map (\<lambda>i. mkRun (replicate (Suc i) CHR ''r'') ''needs_input'' 0 (int i)) [0..<201]\<rparr>"

text \<open>Two blocked runs of the same sender whose lifetimes overlap.\<close>

definition overlapping_state :: harness_state where
  "overlapping_state = empty_state\<lparr>task_runs :=
     [mkRun ''run_a'' ''needs_input'' 10 100, mkRun ''run_b'' ''needs_input'' 50 60]\<rparr>"



section \<open>JavaScript strings and the regular expressions of the source\<close>

text \<open>
  \<open>\s\<close> in a regular expression and the characters \<open>trim()\<close> strips (white space and
  line terminators), \<open>\w\<close> and \<open>\d\<close>, among the code units below 256.
\<close>

definition isSpaceJs :: "char \<Rightarrow> bool" where
  "isSpaceJs c = (c \<in> set [CHR 0x09, CHR 0x0A, CHR 0x0B, CHR 0x0C, CHR 0x0D, CHR 0x20, CHR 0xA0])"

definition isDigitJs :: "char \<Rightarrow> bool" where
  "isDigitJs c = (c \<in> set ''0123456789'')"

definition isUpperAscii :: "char \<Rightarrow> bool" where
  "isUpperAscii c = (c \<in> set ''ABCDEFGHIJKLMNOPQRSTUVWXYZ'')"

definition isLowerAscii :: "char \<Rightarrow> bool" where
  "isLowerAscii c = (c \<in> set ''abcdefghijklmnopqrstuvwxyz'')"

definition isWordJs :: "char \<Rightarrow> bool" where
  "isWordJs c = (isLowerAscii c \<or> isUpperAscii c \<or> isDigitJs c \<or> c = CHR ''_'')"

definition newline :: char where
  "newline = CHR 0x0A"

text \<open>
  \<open>String.prototype.toLowerCase\<close> on the code units below 256: the ASCII capitals and
  the Latin-1 capitals U+00C0 to U+00DE, without the multiplication sign U+00D7.
\<close>

definition asciiCases :: "(char \<times> char) list" where
  "asciiCases = zip ''ABCDEFGHIJKLMNOPQRSTUVWXYZ'' ''abcdefghijklmnopqrstuvwxyz''"

definition latin1Cases :: "(char \<times> char) list" where
  "latin1Cases = zip
     [CHR 0xC0, CHR 0xC1, CHR 0xC2, CHR 0xC3, CHR 0xC4, CHR 0xC5, CHR 0xC6, CHR 0xC7, CHR 0xC8, CHR 0xC9, CHR 0xCA, CHR 0xCB, CHR 0xCC, CHR 0xCD, CHR 0xCE, CHR 0xCF,
      CHR 0xD0, CHR 0xD1, CHR 0xD2, CHR 0xD3, CHR 0xD4, CHR 0xD5, CHR 0xD6, CHR 0xD8, CHR 0xD9, CHR 0xDA, CHR 0xDB, CHR 0xDC, CHR 0xDD, CHR 0xDE]
     [CHR 0xE0, CHR 0xE1, CHR 0xE2, CHR 0xE3, CHR 0xE4, CHR 0xE5, CHR 0xE6, CHR 0xE7, CHR 0xE8, CHR 0xE9, CHR 0xEA, CHR 0xEB, CHR 0xEC, CHR 0xED, CHR 0xEE, CHR 0xEF,
      CHR 0xF0, CHR 0xF1, CHR 0xF2, CHR 0xF3, CHR 0xF4, CHR 0xF5, CHR 0xF6, CHR 0xF8, CHR 0xF9, CHR 0xFA, CHR 0xFB, CHR 0xFC, CHR 0xFD, CHR 0xFE]"

definition lowerChar :: "char \<Rightarrow> char" where
  "lowerChar c = (case map_of (asciiCases @ latin1Cases) c of Some l \<Rightarrow> l | None \<Rightarrow> c)"

definition toLowerCase :: "string \<Rightarrow> string" where
  "toLowerCase s = map lowerChar s"

text \<open>
  Under the flag \<open>i\<close> a pattern letter matches its two ASCII cases only: a code unit that
  is not ASCII never canonicalises to an ASCII one.
\<close>

definition foldAscii :: "char \<Rightarrow> char" where
  "foldAscii c = (case map_of asciiCases c of Some l \<Rightarrow> l | None \<Rightarrow> c)"

text \<open>The input at this position continues with the lower-case literal, ignoring case.\<close>

definition startsWithCI :: "string \<Rightarrow> string \<Rightarrow> bool" where
  "startsWithCI lit s = (map foldAscii (take (length lit) s) = lit)"

definition trimJs :: "string \<Rightarrow> string" where
  "trimJs s = rev (dropWhile isSpaceJs (rev (dropWhile isSpaceJs s)))"

text \<open>\<open>s.split(d)\<close> for a one-character separator.\<close>

fun split_on :: "char \<Rightarrow> string \<Rightarrow> string list" where
  "split_on d [] = [[]]"
| "split_on d (c # cs) =
     (if c = d then [] # split_on d cs
      else (case split_on d cs of [] \<Rightarrow> [[c]] | l # ls \<Rightarrow> (c # l) # ls))"

text \<open>\<open>parts.join(sep)\<close>.\<close>

fun join :: "string \<Rightarrow> string list \<Rightarrow> string" where
  "join sep [] = []"
| "join sep [x] = x"
| "join sep (x # y # ys) = x @ sep @ join sep (y # ys)"

text \<open>
  A regular expression without the sticky flag is tried at every position from the left.
  The matcher at a position sees the code unit before the position (for \<open>\b\<close>) and the
  rest of the input. \<open>anyPos\<close> is \<open>regex.test\<close>, \<open>firstPos\<close> the leftmost match.
\<close>

fun anyPos :: "(char option \<Rightarrow> string \<Rightarrow> bool) \<Rightarrow> char option \<Rightarrow> string \<Rightarrow> bool" where
  "anyPos P prev [] = P prev []"
| "anyPos P prev (c # cs) = (P prev (c # cs) \<or> anyPos P (Some c) cs)"

fun firstPos :: "(char option \<Rightarrow> string \<Rightarrow> 'a option) \<Rightarrow> char option \<Rightarrow> string \<Rightarrow> 'a option" where
  "firstPos M prev [] = M prev []"
| "firstPos M prev (c # cs) =
     (case M prev (c # cs) of Some m \<Rightarrow> Some m | None \<Rightarrow> firstPos M (Some c) cs)"

text \<open>\<open>\b\<close> before a word character, and \<open>\b\<close> after one.\<close>

definition boundaryBefore :: "char option \<Rightarrow> bool" where
  "boundaryBefore prev = (case prev of None \<Rightarrow> True | Some p \<Rightarrow> \<not> isWordJs p)"

definition boundaryAfter :: "string \<Rightarrow> bool" where
  "boundaryAfter rest = (case rest of [] \<Rightarrow> True | c # _ \<Rightarrow> \<not> isWordJs c)"

text \<open>\<open>s.includes(t)\<close>.\<close>

definition includesStr :: "string \<Rightarrow> string \<Rightarrow> bool" where
  "includesStr s t = anyPos (\<lambda>prev rest. prefix t rest) None s"

section \<open>The tooling executor (src/harness/tools/executor.ts)\<close>

definition ALLOWED_TOOLS :: "string list" where
  "ALLOWED_TOOLS = [''npm'', ''npx'', ''pip'', ''pip3'', ''brew'', ''git'', ''docker'', ''pnpm'', ''yarn'']"

text \<open>\<open>name.toLowerCase().replace(/[^a-z0-9]+/g, '_')\<close>: each maximal run of other characters becomes one underscore.\<close>

fun squashNonAlnum :: "bool \<Rightarrow> string \<Rightarrow> string" where
  "squashNonAlnum inRun [] = []"
| "squashNonAlnum inRun (c # cs) =
     (if isLowerAscii c \<or> isDigitJs c then c # squashNonAlnum False cs
      else if inRun then squashNonAlnum True cs
      else CHR ''_'' # squashNonAlnum True cs)"

definition toolIdFromName :: "string \<Rightarrow> string" where
  "toolIdFromName nm = ''tool_'' @ squashNonAlnum False (toLowerCase nm)"

definition classifyTrust :: "string \<Rightarrow> string" where
  "classifyTrust src =
     (let normalized = toLowerCase src
      in if list_ex (includesStr normalized) [''github'', ''npm'', ''pypi'', ''homebrew'', ''docker'', ''git'']
         then ''mainstream''
         else if list_ex (includesStr normalized) [''internal'', ''local'', ''curated'']
         then ''curated''
         else ''unknown'')"

text \<open>
  \<open>line.replace(/^[-*]\s+/, '').replace(/^\d+[.)]\s+/, '').trim()\<close>.
\<close>

definition stripBullet :: "string \<Rightarrow> string" where
  "stripBullet line =
     (case line of
        c # rest \<Rightarrow>
          (if (c = CHR ''-'' \<or> c = CHR ''*'') \<and> takeWhile isSpaceJs rest \<noteq> []
           then dropWhile isSpaceJs rest else line)
      | [] \<Rightarrow> line)"

definition stripNumber :: "string \<Rightarrow> string" where
  "stripNumber line =
     (case dropWhile isDigitJs line of
        c # rest \<Rightarrow>
          (if takeWhile isDigitJs line \<noteq> [] \<and> (c = CHR ''.'' \<or> c = CHR '')'')
              \<and> takeWhile isSpaceJs rest \<noteq> []
           then dropWhile isSpaceJs rest else line)
      | [] \<Rightarrow> line)"

definition stripLinePrefix :: "string \<Rightarrow> string" where
  "stripLinePrefix line = trimJs (stripNumber (stripBullet line))"

text \<open>
  \<open>new RegExp(`\\b(${tool})\\s+[^\\n]+`, 'i')\<close> at one position. \<open>\s+\<close> is greedy: it takes
  the whole run of white space when a character follows the run, and otherwise gives
  back white space until \<open>[^\n]+\<close> can start on a character that is not a newline.
\<close>

definition giveBack :: "string \<Rightarrow> nat option" where
  "giveBack ws = List.find (\<lambda>k. ws ! k \<noteq> newline) (rev [1..<length ws])"

definition toolMatchAt :: "string \<Rightarrow> char option \<Rightarrow> string \<Rightarrow> string option" where
  "toolMatchAt tool prev input =
     (let found = take (length tool) input;
          rest = drop (length tool) input;
          ws = takeWhile isSpaceJs rest;
          after = dropWhile isSpaceJs rest
      in if \<not> boundaryBefore prev \<or> \<not> startsWithCI tool input \<or> ws = [] then None
         else if after \<noteq> [] then Some (found @ ws @ takeWhile (\<lambda>c. c \<noteq> newline) after)
         else (case giveBack ws of
                 None \<Rightarrow> None
               | Some k \<Rightarrow> Some (found @ take k ws @ takeWhile (\<lambda>c. c \<noteq> newline) (drop k ws))))"

definition lineStartsWithTool :: "string \<Rightarrow> bool" where
  "lineStartsWithTool line =
     list_ex (\<lambda>tool. prefix (tool @ '' '') (toLowerCase line) \<or> toLowerCase line = tool) ALLOWED_TOOLS"

fun firstSome :: "('a \<Rightarrow> 'b option) \<Rightarrow> 'a list \<Rightarrow> 'b option" where
  "firstSome f [] = None"
| "firstSome f (x # xs) = (case f x of Some y \<Rightarrow> Some y | None \<Rightarrow> firstSome f xs)"

definition extractCommandCandidate :: "string \<Rightarrow> string" where
  "extractCommandCandidate blob =
     (let lines = filter (\<lambda>l. l \<noteq> []) (map stripLinePrefix (split_on newline blob))
      in case List.find lineStartsWithTool lines of
           Some line \<Rightarrow> line
         | None \<Rightarrow>
             (case firstSome (\<lambda>tool. firstPos (toolMatchAt tool) None blob) ALLOWED_TOOLS of
                Some m \<Rightarrow> trimJs m
              | None \<Rightarrow> []))"

text \<open>
  \<open>/"([^"]*)"|'([^']*)'|(\S+)/g\<close>, executed until it no longer matches. At a quote
  with a closing quote the token is the text between them; otherwise at a character that
  is not white space it is the run of such characters; white space is skipped.
\<close>

function rawTokens :: "string \<Rightarrow> string list" where
  "rawTokens [] = []"
| "rawTokens (c # cs) =
     (if c = CHR 0x22 \<and> CHR 0x22 \<in> set cs then
        takeWhile (\<lambda>x. x \<noteq> CHR 0x22) cs # rawTokens (tl (dropWhile (\<lambda>x. x \<noteq> CHR 0x22) cs))
      else if c = CHR 0x27 \<and> CHR 0x27 \<in> set cs then
        takeWhile (\<lambda>x. x \<noteq> CHR 0x27) cs # rawTokens (tl (dropWhile (\<lambda>x. x \<noteq> CHR 0x27) cs))
      else if \<not> isSpaceJs c then
        (c # takeWhile (\<lambda>x. \<not> isSpaceJs x) cs) # rawTokens (dropWhile (\<lambda>x. \<not> isSpaceJs x) cs)
      else rawTokens cs)"
  by pat_completeness auto
termination
  by (relation "measure length")
     (auto simp: length_dropWhile_le less_Suc_eq_le intro: le_trans[OF diff_le_self])

definition tokenizeCommand :: "string \<Rightarrow> string list" where
  "tokenizeCommand command = filter (\<lambda>t. t \<noteq> []) (rawTokens command)"

text \<open>\<open>/[;&|`]/\<close>, \<open>/\bsudo\b/i\<close> and \<open>/\brm\s+-rf\b/i\<close>.\<close>

definition hasShellMeta :: "string \<Rightarrow> bool" where
  "hasShellMeta command = list_ex (\<lambda>c. c \<in> set [CHR '';'', CHR ''&'', CHR ''|'', CHR 0x60]) command"

definition sudoAt :: "char option \<Rightarrow> string \<Rightarrow> bool" where
  "sudoAt prev input =
     (boundaryBefore prev \<and> startsWithCI ''sudo'' input \<and> boundaryAfter (drop 4 input))"

definition hasSudo :: "string \<Rightarrow> bool" where
  "hasSudo command = anyPos sudoAt None command"

definition rmRfAt :: "char option \<Rightarrow> string \<Rightarrow> bool" where
  "rmRfAt prev input =
     (let rest = drop 2 input; after = dropWhile isSpaceJs rest
      in boundaryBefore prev \<and> startsWithCI ''rm'' input \<and> takeWhile isSpaceJs rest \<noteq> []
         \<and> startsWithCI ''-rf'' after \<and> boundaryAfter (drop 3 after))"

definition hasRmRf :: "string \<Rightarrow> bool" where
  "hasRmRf command = anyPos rmRfAt None command"

record Sanitized =
  ok :: bool
  reason :: "string option"

definition sanitizeCommand :: "string \<Rightarrow> Sanitized" where
  "sanitizeCommand command =
     (if trimJs command = [] then
        \<lparr>ok = False, reason = Some ''No executable tool command found.''\<rparr>
      else if hasShellMeta command then
        \<lparr>ok = False, reason = Some ''Command chaining/pipes are blocked in harness tooling mode.''\<rparr>
      else if hasSudo command then
        \<lparr>ok = False, reason = Some ''sudo is blocked in harness tooling mode.''\<rparr>
      else if hasRmRf command then
        \<lparr>ok = False, reason = Some ''Destructive rm -rf command blocked.''\<rparr>
      else
        (case tokenizeCommand command of
           [] \<Rightarrow> \<lparr>ok = False, reason = Some ''Command parser could not extract executable tokens.''\<rparr>
         | t # _ \<Rightarrow>
             (let tool = toLowerCase t
              in if tool \<notin> set ALLOWED_TOOLS then
                   \<lparr>ok = False,
                    reason = Some (''Tool '' @ [CHR 0x27] @ tool @ [CHR 0x27]
                                     @ '' is not in allowed harness tool list.'')\<rparr>
                 else \<lparr>ok = True, reason = None\<rparr>)))"

text \<open>Repository operations the executor uses (src/harness/repository.ts).\<close>

definition incrementMetric ::
  "string \<Rightarrow> real \<Rightarrow> json \<Rightarrow> 'a harness_state_scheme \<Rightarrow> real \<times> 'a harness_state_scheme" where
  "incrementMetric metricName d metadata s =
     (let current = List.find (\<lambda>r. metric_name r = metricName) (harness_metrics s);
          nextValue = (case current of None \<Rightarrow> 0 | Some r \<Rightarrow> metric_value r) + d
      in (nextValue,
          s\<lparr>harness_metrics :=
               upsert metric_name
                 (\<lambda>old new. old\<lparr>metric_value := metric_value new,
                                 metric_updated_at := metric_updated_at new\<rparr>)
                 \<lparr>metric_name = metricName, metric_value = nextValue, metric_updated_at = now s\<rparr>
                 (harness_metrics s),
             harness_metric_events := harness_metric_events s @
               [\<lparr>me_metric_name = metricName, delta = d, me_metadata_json = metadata,
                 me_created_at = now s\<rparr>]\<rparr>))"

text \<open>\<open>WHERE lower(name) = lower(?)\<close>: SQLite folds the ASCII letters only.\<close>

definition getToolByName :: "string \<Rightarrow> 'a harness_state_scheme \<Rightarrow> ToolRow option" where
  "getToolByName nm s =
     List.find (\<lambda>r. map foldAscii (name r) = map foldAscii nm) (tool_registry s)"

definition upsertTool ::
  "string \<Rightarrow> string \<Rightarrow> string \<Rightarrow> string \<Rightarrow> string \<Rightarrow> json
     \<Rightarrow> 'a harness_state_scheme \<Rightarrow> 'a harness_state_scheme" where
  "upsertTool toolId nm src trustClass st metadata s =
     s\<lparr>tool_registry :=
          upsert tool_id
            (\<lambda>old new. old\<lparr>name := name new, source := source new,
                            trust_class := trust_class new, tool_status := tool_status new,
                            last_verified_at := last_verified_at new,
                            metadata_json := metadata_json new,
                            tool_updated_at := tool_updated_at new\<rparr>)
            \<lparr>tool_id = toolId, name = nm, source = src, trust_class = trustClass,
             tool_status = st, last_verified_at = now s, metadata_json = metadata,
             tool_created_at = now s, tool_updated_at = now s\<rparr>
            (tool_registry s)\<rparr>"

definition upsertPermission ::
  "string \<Rightarrow> string \<Rightarrow> string \<Rightarrow> string \<Rightarrow> string \<Rightarrow> string
     \<Rightarrow> 'a harness_state_scheme \<Rightarrow> 'a harness_state_scheme" where
  "upsertPermission permissionId userId subj act res st s =
     s\<lparr>permissions :=
          upsert permission_id
            (\<lambda>old new. old\<lparr>perm_status := perm_status new, resource := resource new,
                            perm_updated_at := perm_updated_at new\<rparr>)
            \<lparr>permission_id = permissionId, perm_user_id = userId, subject = subj, action = act,
             resource = res, perm_status = st, perm_created_at = now s, perm_updated_at = now s\<rparr>
            (permissions s)\<rparr>"

definition hasActivePermission :: "string \<Rightarrow> string \<Rightarrow> string \<Rightarrow> 'a harness_state_scheme \<Rightarrow> bool" where
  "hasActivePermission userId subj act s =
     (0 < length (filter (\<lambda>r. perm_user_id r = userId \<and> subject r = subj \<and> action r = act
                              \<and> perm_status r = ''active'') (permissions s)))"

definition appendToolEvent :: "string \<Rightarrow> string \<Rightarrow> json \<Rightarrow> 'a harness_state_scheme \<Rightarrow> 'a harness_state_scheme" where
  "appendToolEvent toolId eventType p s =
     s\<lparr>tool_events := tool_events s @
          [\<lparr>log_key = toolId, log_type = eventType, payload_json = p, log_created_at = now s\<rparr>]\<rparr>"

text \<open>The executor proper.\<close>

record ToolExecutionInput =
  in_runId :: string
  in_userId :: string
  in_objective :: string
  in_candidateOutput :: "string option"
  in_workspacePath :: string

datatype ToolStatus = completed | needs_approval | needs_input | failed

record ToolExecutionResult =
  te_status :: ToolStatus
  te_message :: string
  te_requestId :: "string option"
  te_toolName :: "string option"
  te_command :: "string option"
  te_outputSnippet :: "string option"

text \<open>
  The world outside: \<open>randomUUID\<close> is the value \<open>crypto.randomUUID()\<close> returns, and
  \<open>child bin args cwd\<close> is what the promise around \<open>spawn(bin, args, {cwd, shell: false})\<close>
  resolves with: the exit code and the captured output.
\<close>

record ToolEnv =
  randomUUID :: string
  child :: "string \<Rightarrow> string list \<Rightarrow> string \<Rightarrow> int \<times> string"

definition executeCommand ::
  "ToolEnv \<Rightarrow> string \<Rightarrow> string \<Rightarrow> 'a harness_state_scheme \<Rightarrow> (int \<times> string) \<times> 'a harness_state_scheme" where
  "executeCommand env command cwd s =
     (case tokenizeCommand command of
        [] \<Rightarrow> ((1, ''Command parse failed.''), s)
      | bin # args \<Rightarrow> (child env bin args cwd, s\<lparr>spawned := spawned s @ [(bin, args)]\<rparr>))"

definition sourceTextOf :: "ToolExecutionInput \<Rightarrow> string" where
  "sourceTextOf input =
     join [newline]
       (filter (\<lambda>t. t \<noteq> [])
          [in_objective input, (case in_candidateOutput input of None \<Rightarrow> [] | Some c \<Rightarrow> c)])"

definition approvalMessage :: "string \<Rightarrow> string \<Rightarrow> string" where
  "approvalMessage toolName requestId =
     ''Tool execution requires approval for '' @ [CHR 0x27] @ toolName @ [CHR 0x27]
       @ ''. Reply with /approve '' @ requestId @ '' or /deny '' @ requestId @ ''.''"

definition executeToolingTask ::
  "ToolEnv \<Rightarrow> ToolExecutionInput \<Rightarrow> 'a harness_state_scheme
     \<Rightarrow> ToolExecutionResult \<times> 'a harness_state_scheme" where
  "executeToolingTask env input s =
     (let command = extractCommandCandidate (sourceTextOf input);
          validated = sanitizeCommand command
      in if \<not> ok validated then
           (\<lparr>te_status = needs_input,
             te_message = (case reason validated of
                             None \<Rightarrow> ''Could not build an executable tool command.''
                           | Some r \<Rightarrow> if r = [] then ''Could not build an executable tool command.'' else r),
             te_requestId = None, te_toolName = None, te_command = None, te_outputSnippet = None\<rparr>,
            snd (incrementMetric ''tooling_needs_input_count'' 1
                   (JObj [(''runId'', JStr (in_runId input))]) s))
         else
           (let toolName = toLowerCase (case tokenizeCommand command of [] \<Rightarrow> [] | t # _ \<Rightarrow> t);
                toolId = toolIdFromName toolName;
                s1 = (if getToolByName toolName s = None
                      then upsertTool toolId toolName ''runtime'' (classifyTrust toolName) ''pending''
                             (JObj [(''discoveredBy'', JStr ''harness_runtime''),
                                    (''runId'', JStr (in_runId input))]) s
                      else s)
            in if \<not> hasActivePermission (in_userId input) toolName ''execute'' s1 then
                 (let requestId = ''perm_'' @ randomUUID env;
                      s2 = upsertPermission requestId (in_userId input) toolName ''execute'' ''tool''
                             ''pending'' s1;
                      s3 = appendToolEvent toolId ''approval_required''
                             (JObj [(''runId'', JStr (in_runId input)),
                                    (''userId'', JStr (in_userId input)),
                                    (''command'', JStr command),
                                    (''requestId'', JStr requestId)]) s2;
                      s4 = snd (incrementMetric ''tooling_approval_required_count'' 1
                                  (JObj [(''toolName'', JStr toolName),
                                         (''runId'', JStr (in_runId input))]) s3)
                  in (\<lparr>te_status = needs_approval,
                        te_message = approvalMessage toolName requestId,
                        te_requestId = Some requestId, te_toolName = Some toolName,
                        te_command = Some command, te_outputSnippet = None\<rparr>, s4))
               else
                 (let s2 = upsertTool toolId toolName ''runtime'' (classifyTrust toolName) ''approved''
                             (JObj [(''executedBy'', JStr (in_userId input)),
                                    (''lastRunId'', JStr (in_runId input))]) s1;
                      s3 = appendToolEvent toolId ''execute_start''
                             (JObj [(''runId'', JStr (in_runId input)),
                                    (''userId'', JStr (in_userId input)),
                                    (''command'', JStr command)]) s2
                  in case executeCommand env command (in_workspacePath input) s3 of
                       ((code, out), s4) \<Rightarrow>
                         if code \<noteq> 0 then
                           (\<lparr>te_status = failed,
                             te_message = ''Tool command failed for '' @ [CHR 0x27] @ toolName
                                            @ [CHR 0x27] @ ''.'',
                             te_requestId = None, te_toolName = Some toolName,
                             te_command = Some command,
                             te_outputSnippet = Some (slice0 8000 out)\<rparr>,
                            snd (incrementMetric ''tooling_failed_count'' 1
                                   (JObj [(''toolName'', JStr toolName),
                                          (''runId'', JStr (in_runId input))])
                                   (appendToolEvent toolId ''execute_failed''
                                      (JObj [(''runId'', JStr (in_runId input)),
                                             (''command'', JStr command),
                                             (''output'', JStr out)]) s4)))
                         else
                           (\<lparr>te_status = completed,
                             te_message = ''Tool command completed: '' @ command,
                             te_requestId = None, te_toolName = Some toolName,
                             te_command = Some command,
                             te_outputSnippet = Some (slice0 8000 out)\<rparr>,
                            snd (incrementMetric ''tooling_success_count'' 1
                                   (JObj [(''toolName'', JStr toolName),
                                          (''runId'', JStr (in_runId input))])
                                   (appendToolEvent toolId ''execute_success''
                                      (JObj [(''runId'', JStr (in_runId input)),
                                             (''command'', JStr command),
                                             (''output'', JStr out)]) s4))))))"

text \<open>A user who was granted \<open>npm\<close>, a child process that exits with 0, and three requests.\<close>

definition granted_state :: harness_state where
  "granted_state = empty_state\<lparr>permissions :=
     [\<lparr>permission_id = ''perm_0'', perm_user_id = ''u1'', subject = ''npm'', action = ''execute'',
       resource = ''tool'', perm_status = ''active'', perm_created_at = 900, perm_updated_at = 900\<rparr>]\<rparr>"

definition quiet_env :: ToolEnv where
  "quiet_env = \<lparr>randomUUID = ''0b5e'', child = (\<lambda>bin args cwd. (0, ''Exit code: 0''))\<rparr>"

definition shout_request :: ToolExecutionInput where
  "shout_request = \<lparr>in_runId = ''run_1'', in_userId = ''u1'', in_objective = ''NPM install'',
     in_candidateOutput = None, in_workspacePath = ''/tmp/ws''\<rparr>"

definition git_request :: ToolExecutionInput where
  "git_request = \<lparr>in_runId = ''run_2'', in_userId = ''u1'', in_objective = ''please update the repo'',
     in_candidateOutput = Some ''- git pull'', in_workspacePath = ''/tmp/ws''\<rparr>"

definition chained_request :: ToolExecutionInput where
  "chained_request = \<lparr>in_runId = ''run_3'', in_userId = ''u1'', in_objective = ''npm test | tee log'',
     in_candidateOutput = None, in_workspacePath = ''/tmp/ws''\<rparr>"

text \<open>
  A user who was granted \<open>git\<close>, and a request whose command quotes the option of
  \<open>git rm\<close>.
\<close>

definition git_granted_state :: harness_state where
  "git_granted_state = empty_state\<lparr>permissions :=
     [\<lparr>permission_id = ''perm_1'', perm_user_id = ''u1'', subject = ''git'', action = ''execute'',
       resource = ''tool'', perm_status = ''active'', perm_created_at = 900, perm_updated_at = 900\<rparr>]\<rparr>"

definition quoted_rm_request :: ToolExecutionInput where
  \<open>quoted_rm_request = \<lparr>in_runId = ''run_4'', in_userId = ''u1'',
     in_objective = ''git rm "-rf" build'',
     in_candidateOutput = None, in_workspacePath = ''/tmp/ws''\<rparr>\<close>

section \<open>The durable pending-message store (src/channels/pending-store.ts)\<close>

definition upsertChannelPendingMessage ::
  "string \<Rightarrow> string \<Rightarrow> string \<Rightarrow> string \<Rightarrow> string option \<Rightarrow> string option \<Rightarrow> int
     \<Rightarrow> 'a harness_state_scheme \<Rightarrow> 'a harness_state_scheme" where
  "upsertChannelPendingMessage messageId ch sndr senderId chatRef replyRef expiresAt s =
     s\<lparr>channel_pending_messages :=
          upsert message_id
            (\<lambda>old new. old\<lparr>pm_channel := pm_channel new, pm_sender := pm_sender new,
                            pm_sender_id := pm_sender_id new, chat_ref := chat_ref new,
                            reply_ref := reply_ref new, expires_at := expires_at new,
                            pm_updated_at := pm_updated_at new\<rparr>)
            \<lparr>message_id = messageId, pm_channel = ch, pm_sender = sndr, pm_sender_id = senderId,
             chat_ref = coalesce chatRef, reply_ref = coalesce replyRef, expires_at = expiresAt,
             pm_created_at = now s, pm_updated_at = now s\<rparr>
            (channel_pending_messages s)\<rparr>"

definition getChannelPendingMessage ::
  "string \<Rightarrow> 'a harness_state_scheme \<Rightarrow> ChannelPendingMessageRow option" where
  "getChannelPendingMessage messageId s =
     List.find (\<lambda>r. message_id r = messageId) (channel_pending_messages s)"

definition deleteChannelPendingMessage ::
  "string \<Rightarrow> 'a harness_state_scheme \<Rightarrow> 'a harness_state_scheme" where
  "deleteChannelPendingMessage messageId s =
     s\<lparr>channel_pending_messages :=
          filter (\<lambda>r. message_id r \<noteq> messageId) (channel_pending_messages s)\<rparr>"

text \<open>The \<open>WHERE\<close> clause shared by the count and the delete of the purge.\<close>

definition purgeable :: "string \<Rightarrow> int \<Rightarrow> ChannelPendingMessageRow \<Rightarrow> bool" where
  "purgeable ch cutoff r = (expires_at r \<le> cutoff \<and> (ch = [] \<or> pm_channel r = ch))"

definition purgeExpiredChannelPendingMessages ::
  "string \<Rightarrow> int \<Rightarrow> 'a harness_state_scheme \<Rightarrow> int \<times> 'a harness_state_scheme" where
  "purgeExpiredChannelPendingMessages ch olderThanMs s =
     (let cutoff = now s - max 0 olderThanMs;
          before = int (length (filter (purgeable ch cutoff) (channel_pending_messages s)))
      in (before,
          s\<lparr>channel_pending_messages :=
               filter (\<lambda>r. \<not> purgeable ch cutoff r) (channel_pending_messages s)\<rparr>))"

definition DEFAULT_TTL_MS :: int where
  "DEFAULT_TTL_MS = 10 * 60 * 1000"

text \<open>\<open>a || b\<close> on strings: \<open>b\<close> when \<open>a\<close> is empty.\<close>

definition orElse :: "string \<Rightarrow> string \<Rightarrow> string" where
  "orElse a b = (if a = [] then b else a)"

definition rememberPendingMessage ::
  "string \<Rightarrow> string \<Rightarrow> string \<Rightarrow> string \<Rightarrow> string option \<Rightarrow> string option \<Rightarrow> int option
     \<Rightarrow> 'a harness_state_scheme \<Rightarrow> 'a harness_state_scheme" where
  "rememberPendingMessage messageId ch sndr senderId chatRef replyRef ttl s =
     (let ttlMs = max 1 (case ttl of None \<Rightarrow> DEFAULT_TTL_MS
                         | Some v \<Rightarrow> if v = 0 then DEFAULT_TTL_MS else v);
          expiresAt = now s + ttlMs
      in upsertChannelPendingMessage messageId ch sndr senderId
           (Some (orElse (coalesce chatRef) senderId)) (Some (coalesce replyRef)) expiresAt s)"

record DurablePendingMessage =
  dp_channel :: string
  dp_sender :: string
  dp_senderId :: string
  dp_chatRef :: string
  dp_replyRef :: string

definition readPendingMessage ::
  "string \<Rightarrow> string \<Rightarrow> 'a harness_state_scheme
     \<Rightarrow> DurablePendingMessage option \<times> 'a harness_state_scheme" where
  "readPendingMessage ch messageId s =
     (case getChannelPendingMessage messageId s of
        None \<Rightarrow> (None, s)
      | Some row \<Rightarrow>
          if pm_channel row \<noteq> ch then (None, s)
          else if expires_at row \<le> now s then (None, deleteChannelPendingMessage messageId s)
          else (Some \<lparr>dp_channel = pm_channel row, dp_sender = pm_sender row,
                      dp_senderId = pm_sender_id row,
                      dp_chatRef = orElse (chat_ref row) (pm_sender_id row),
                      dp_replyRef = reply_ref row\<rparr>, s))"

definition clearPendingMessage :: "string \<Rightarrow> 'a harness_state_scheme \<Rightarrow> 'a harness_state_scheme" where
  "clearPendingMessage messageId s = deleteChannelPendingMessage messageId s"

definition cleanupExpiredPendingMessages ::
  "string \<Rightarrow> 'a harness_state_scheme \<Rightarrow> int \<times> 'a harness_state_scheme" where
  "cleanupExpiredPendingMessages ch s =
     (case purgeExpiredChannelPendingMessages ch 0 s of
        (removed, s1) \<Rightarrow>
          if removed > 0
          then (removed, snd (incrementMetric ''channel_pending_expired_count'' (real_of_int removed)
                                (JObj [(''channel'', JStr ch)]) s1))
          else (removed, s1))"

text \<open>A store at clock 1000 holding one expired and one live WhatsApp message.\<close>

definition mkPending :: "string \<Rightarrow> int \<Rightarrow> ChannelPendingMessageRow" where
  "mkPending mid expires =
     \<lparr>message_id = mid, pm_channel = ''whatsapp'', pm_sender = ''Ann'', pm_sender_id = ''u1'',
      chat_ref = ''chat1'', reply_ref = [], expires_at = expires, pm_created_at = 100,
      pm_updated_at = 100\<rparr>"

definition pending_state :: harness_state where
  "pending_state = empty_state\<lparr>channel_pending_messages :=
     [mkPending ''m_old'' 700, mkPending ''m_new'' 5000]\<rparr>"

section \<open>Long responses (src/queue-processor.ts)\<close>

text \<open>
  The files directory as a map from path to content, and the lines handed to \<open>log\<close>.
  \<open>FILES_DIR\<close> is \<open>path.join(TINYAGI_HOME, 'files')\<close>, a normalised directory path that
  depends on the host: it is a parameter, and \<open>path.join(FILES_DIR, filename)\<close> of a
  plain file name puts one separator between the two.
\<close>

record disk =
  files_on_disk :: "string \<rightharpoonup> string"
  log_lines :: "(string \<times> string) list"

definition LONG_RESPONSE_THRESHOLD :: nat where
  "LONG_RESPONSE_THRESHOLD = 4000"

definition digitChar :: "nat \<Rightarrow> char" where
  "digitChar d = ''0123456789'' ! (d mod 10)"

text \<open>The decimal digits a template literal prints for a non-negative integer.\<close>

function showNat :: "nat \<Rightarrow> string" where
  "showNat n = (if n < 10 then [digitChar n] else showNat (n div 10) @ [digitChar n])"
  by pat_completeness auto
termination
  by (relation "measure id") auto

declare showNat.simps [simp del]

definition pathJoin :: "string \<Rightarrow> string \<Rightarrow> string" where
  "pathJoin dir file = dir @ ''/'' @ file"

definition writeFileSync :: "string \<Rightarrow> string \<Rightarrow> 'a disk_scheme \<Rightarrow> 'a disk_scheme" where
  "writeFileSync path content d = d\<lparr>files_on_disk := (files_on_disk d)(path \<mapsto> content)\<rparr>"

definition logLine :: "string \<Rightarrow> string \<Rightarrow> 'a disk_scheme \<Rightarrow> 'a disk_scheme" where
  "logLine level text d = d\<lparr>log_lines := log_lines d @ [(level, text)]\<rparr>"

definition handleLongResponse ::
  "string \<Rightarrow> nat \<Rightarrow> string \<Rightarrow> string list \<Rightarrow> 'a disk_scheme
     \<Rightarrow> (string \<times> string list) \<times> 'a disk_scheme" where
  "handleLongResponse FILES_DIR dateNow response existingFiles d =
     (if length response \<le> LONG_RESPONSE_THRESHOLD then ((response, existingFiles), d)
      else
        (let filename = ''response_'' @ showNat dateNow @ ''.md'';
             filePath = pathJoin FILES_DIR filename;
             d1 = writeFileSync filePath response d;
             d2 = logLine ''INFO'' (''Long response ('' @ showNat (length response)
                                      @ '' chars) saved to '' @ filename) d1;
             preview = take LONG_RESPONSE_THRESHOLD response
                         @ [newline, newline] @ ''_(Full response attached as file)_''
         in ((preview, existingFiles @ [filePath]), d2)))"

text \<open>
  The two fields of the outgoing envelope that come from \<open>handleLongResponse\<close>:
  \<open>message: responseMessage\<close> and \<open>files: allFiles.length > 0 ? allFiles : undefined\<close>.
\<close>

record ResponseData =
  rd_message :: string
  rd_files :: "string list option"

definition responseEnvelope :: "string \<times> string list \<Rightarrow> ResponseData" where
  "responseEnvelope r = \<lparr>rd_message = fst r, rd_files = (if snd r \<noteq> [] then Some (snd r) else None)\<rparr>"

definition empty_disk :: disk where
  "empty_disk = \<lparr>files_on_disk = Map.empty, log_lines = []\<rparr>"

section \<open>The verifier (src/harness/runtime/orchestrator.ts)\<close>

text \<open>\<open>Array.from(new Set(xs))\<close>: the first occurrence of each element, in order.\<close>

definition uniqueInOrder :: "'a list \<Rightarrow> 'a list" where
  "uniqueInOrder xs = rev (remdups (rev xs))"

text \<open>
  \<open>/(https?:\/\/[^\s)]+)/g\<close> and \<open>/\[(?:evidence|source):\s*([^\]]+)\]/gi\<close>, each executed
  until it no longer matches: every match from the left, the search resuming after the
  previous match. The second contributes its group, trimmed; when only white space
  stands before the closing bracket the group is one white-space character, which trims
  to the empty string as the whole text between colon and bracket does.
\<close>

definition urlBodyChar :: "char \<Rightarrow> bool" where
  "urlBodyChar c = (\<not> isSpaceJs c \<and> c \<noteq> CHR '')'')"

function urlRefs :: "string \<Rightarrow> string list" where
  "urlRefs [] = []"
| "urlRefs (c # cs) =
     (if prefix ''https://'' (c # cs) \<and> takeWhile urlBodyChar (drop 7 cs) \<noteq> [] then
        (''https://'' @ takeWhile urlBodyChar (drop 7 cs)) # urlRefs (dropWhile urlBodyChar (drop 7 cs))
      else if prefix ''http://'' (c # cs) \<and> takeWhile urlBodyChar (drop 6 cs) \<noteq> [] then
        (''http://'' @ takeWhile urlBodyChar (drop 6 cs)) # urlRefs (dropWhile urlBodyChar (drop 6 cs))
      else urlRefs cs)"
  by pat_completeness auto
termination
  by (relation "measure length")
     (auto simp: less_Suc_eq_le intro: le_trans[OF length_dropWhile_le])

definition notBracket :: "char \<Rightarrow> bool" where
  "notBracket c = (c \<noteq> CHR '']'')"

text \<open>After the opening bracket: the text between the colon and the closing bracket.\<close>

definition evidenceBody :: "string \<Rightarrow> string option" where
  "evidenceBody r =
     (let r1 = (if startsWithCI ''evidence'' r then Some (drop 8 r)
                else if startsWithCI ''source'' r then Some (drop 6 r) else None)
      in case r1 of
           Some (c # R) \<Rightarrow>
             if c = CHR '':'' \<and> CHR '']'' \<in> set R \<and> takeWhile notBracket R \<noteq> []
             then Some R else None
         | _ \<Rightarrow> None)"

function evidenceTags :: "string \<Rightarrow> string list" where
  "evidenceTags [] = []"
| "evidenceTags (c # cs) =
     (case (if c = CHR ''['' then evidenceBody cs else None) of
        Some R \<Rightarrow> trimJs (takeWhile notBracket R) # evidenceTags (tl (dropWhile notBracket R))
      | None \<Rightarrow> evidenceTags cs)"
  by pat_completeness auto
termination
proof (relation "measure length")
  fix c cs R
  assume "(if c = CHR ''['' then evidenceBody cs else None) = Some R"
  then have "evidenceBody cs = Some R"
    by (simp split: if_splits)
  then have "\<exists>n. R = drop n cs"
    by (auto simp: evidenceBody_def Let_def drop_Suc tl_drop
             split: if_splits list.splits option.splits)
       (metis drop_Suc tl_drop list.sel(3))+
  then have "length R \<le> length cs"
    by auto
  moreover have "length (tl (dropWhile notBracket R)) \<le> length R"
    by (simp add: le_trans[OF diff_le_self length_dropWhile_le])
  ultimately show "(tl (dropWhile notBracket R), c # cs) \<in> measure length"
    by simp
qed auto

definition extractEvidenceRefs :: "string \<Rightarrow> string list" where
  "extractEvidenceRefs text = uniqueInOrder (urlRefs text @ evidenceTags text)"

text \<open>The two fast paths: \<open>!candidate || candidate.trim().length < 8\<close> and
  \<open>/sorry,?\s+i encountered an error/i\<close>.\<close>

definition tooShort :: "string \<Rightarrow> bool" where
  "tooShort candidate = (candidate = [] \<or> length (trimJs candidate) < 8)"

definition placeholderAt :: "char option \<Rightarrow> string \<Rightarrow> bool" where
  "placeholderAt prev input =
     (let r = drop 5 input;
          r1 = (if prefix '','' r then tl r else r)
      in startsWithCI ''sorry'' input \<and> takeWhile isSpaceJs r1 \<noteq> []
         \<and> startsWithCI ''i encountered an error'' (dropWhile isSpaceJs r1))"

definition errorPlaceholder :: "string \<Rightarrow> bool" where
  "errorPlaceholder candidate = anyPos placeholderAt None candidate"

record VerifyContext =
  vc_runId :: string
  vc_objective :: string
  vc_risk :: RiskLevel

fun riskName :: "RiskLevel \<Rightarrow> string" where
  "riskName low = ''low''"
| "riskName medium = ''medium''"
| "riskName high = ''high''"
| "riskName critical = ''critical''"

definition verifierPrompt :: "VerifyContext \<Rightarrow> string \<Rightarrow> string" where
  \<open>verifierPrompt ctx candidate = join [newline]
     [''You are a response quality verifier for an AI assistant. Evaluate whether the agent response adequately addresses the user request.'',
      [],
      ''<request risk="'' @ riskName (vc_risk ctx) @ ''">'',
      vc_objective ctx,
      ''</request>'',
      [],
      ''<response>'',
      candidate,
      ''</response>'',
      [],
      ''Output ONLY a JSON object with these fields, no other text:'',
      ''{'',
      ''  "outcome": "pass" | "minor_fix" | "critical_fail" | "abstain",'',
      ''  "findings": ["list of issues, empty if pass"],'',
      ''  "required_actions": ["fixes needed, empty if pass"]'',
      ''}'',
      [],
      ''Guidelines:'',
      ''- "pass": Response is relevant, coherent, and addresses the request. Conversational and casual messages should pass easily.'',
      ''- "minor_fix": Response is partially correct but has notable gaps or inaccuracies.'',
      ''- "critical_fail": Response is completely off-topic, nonsensical, or could cause harm.'',
      ''- "abstain": Cannot evaluate (too specialized or ambiguous).'',
      ''- Be pragmatic. A helpful on-topic response should pass even if imperfect.'']\<close>

text \<open>
  The world outside the verifier: the one-shot model runner (its answer, or the exception
  it throws), and the built-ins \<open>JSON.parse\<close> (a value or a SyntaxError) and the
  number-to-string conversion.
\<close>

record VerifierEnv =
  runOneShotPrompt :: "string \<Rightarrow> string \<Rightarrow> error + string"
  JSON_parse :: "string \<Rightarrow> error + json"
  numberToString :: "real \<Rightarrow> string"

text \<open>
  \<open>trimmed.match(/```(?:json)?\s*([\s\S]*?)\s*```/)\<close>, group 1: the match starts at the
  first fence, and the lazy group ends where white space and the next fence follow.
  \<open>trimmed.match(/\{[\s\S]*\}/)\<close>: from the first opening brace to the last closing one.
\<close>

definition fence :: string where
  "fence = [CHR 0x60, CHR 0x60, CHR 0x60]"

fun afterFirst :: "string \<Rightarrow> string \<Rightarrow> string option" where
  "afterFirst pat [] = (if pat = [] then Some [] else None)"
| "afterFirst pat (c # cs) =
     (if prefix pat (c # cs) then Some (drop (length pat) (c # cs)) else afterFirst pat cs)"

fun beforeFirst :: "string \<Rightarrow> string \<Rightarrow> string option" where
  "beforeFirst pat [] = (if pat = [] then Some [] else None)"
| "beforeFirst pat (c # cs) =
     (if prefix pat (c # cs) then Some [] else map_option (Cons c) (beforeFirst pat cs))"

definition fencedBlock :: "string \<Rightarrow> string option" where
  "fencedBlock trimmed =
     (case afterFirst fence trimmed of
        None \<Rightarrow> None
      | Some a \<Rightarrow>
          (case beforeFirst fence (dropWhile isSpaceJs (if prefix ''json'' a then drop 4 a else a)) of
             None \<Rightarrow> None
           | Some inner \<Rightarrow> Some (rev (dropWhile isSpaceJs (rev inner)))))"

definition braceSpan :: "string \<Rightarrow> string option" where
  "braceSpan trimmed =
     (case dropWhile (\<lambda>c. c \<noteq> CHR ''{'') trimmed of
        [] \<Rightarrow> None
      | b # rest \<Rightarrow>
          if CHR ''}'' \<in> set rest
          then Some (b # rev (dropWhile (\<lambda>c. c \<noteq> CHR ''}'') (rev rest)))
          else None)"

text \<open>
  The value \<open>parsed\<close> holds when the parsing block is left, \<open>None\<close> for the initial
  \<open>null\<close>; \<open>Inl\<close> when the second \<open>JSON.parse\<close> throws out of the block.
\<close>

definition parseVerifierOutput :: "VerifierEnv \<Rightarrow> string \<Rightarrow> error + json option" where
  "parseVerifierOutput env trimmed =
     (case JSON_parse env trimmed of
        Inr v \<Rightarrow> Inr (Some v)
      | Inl _ \<Rightarrow>
          (case fencedBlock trimmed of
             Some inner \<Rightarrow>
               (case JSON_parse env inner of Inr v \<Rightarrow> Inr (Some v) | Inl e \<Rightarrow> Inl e)
           | None \<Rightarrow>
               (case braceSpan trimmed of
                  Some m \<Rightarrow>
                    (case JSON_parse env m of Inr v \<Rightarrow> Inr (Some v) | Inl e \<Rightarrow> Inl e)
                | None \<Rightarrow> Inr None)))"

text \<open>Truthiness, \<open>typeof v === 'object'\<close>, property access, and \<open>String(v)\<close> on parsed JSON.\<close>

fun truthy :: "json \<Rightarrow> bool" where
  "truthy JNull = False"
| "truthy (JBool b) = b"
| "truthy (JNum x) = (x \<noteq> 0)"
| "truthy (JStr s) = (s \<noteq> [])"
| "truthy (JArr xs) = True"
| "truthy (JObj kvs) = True"

fun typeofObject :: "json \<Rightarrow> bool" where
  "typeofObject JNull = True"
| "typeofObject (JArr xs) = True"
| "typeofObject (JObj kvs) = True"
| "typeofObject v = False"

fun getProp :: "string \<Rightarrow> json \<Rightarrow> json option" where
  "getProp k (JObj kvs) = map_of kvs k"
| "getProp k v = None"

text \<open>
  \<open>String(v)\<close>: an array joins its elements with commas, \<open>null\<close> elements as empty
  strings; an object prints as \<open>[object Object]\<close> unless an own property \<open>toString\<close>
  hides the inherited method, in which case the conversion throws a TypeError.
\<close>

fun jsString :: "(real \<Rightarrow> string) \<Rightarrow> json \<Rightarrow> error + string"
  and jsJoin :: "(real \<Rightarrow> string) \<Rightarrow> json list \<Rightarrow> error + string" where
  "jsString n JNull = Inr ''null''"
| "jsString n (JBool b) = Inr (if b then ''true'' else ''false'')"
| "jsString n (JNum x) = Inr (n x)"
| "jsString n (JStr s) = Inr s"
| "jsString n (JArr xs) = jsJoin n xs"
| "jsString n (JObj kvs) =
     (if map_of kvs ''toString'' \<noteq> None
      then Inl (Error ''Cannot convert object to primitive value'')
      else Inr ''[object Object]'')"
| "jsJoin n [] = Inr []"
| "jsJoin n (x # xs) =
     (case (if x = JNull then Inr [] else jsString n x) of
        Inl e \<Rightarrow> Inl e
      | Inr a \<Rightarrow>
          if xs = [] then Inr a
          else (case jsJoin n xs of Inl e \<Rightarrow> Inl e | Inr b \<Rightarrow> Inr (a @ '','' @ b)))"

text \<open>\<open>xs.map(String)\<close>, stopping at the first exception.\<close>

fun mapString :: "(real \<Rightarrow> string) \<Rightarrow> json list \<Rightarrow> error + string list" where
  "mapString n [] = Inr []"
| "mapString n (x # xs) =
     (case jsString n x of
        Inl e \<Rightarrow> Inl e
      | Inr a \<Rightarrow> (case mapString n xs of Inl e \<Rightarrow> Inl e | Inr as \<Rightarrow> Inr (a # as)))"

definition stringArray :: "(real \<Rightarrow> string) \<Rightarrow> json option \<Rightarrow> error + string list" where
  "stringArray n v = (case v of Some (JArr xs) \<Rightarrow> mapString n xs | _ \<Rightarrow> Inr [])"

definition outcomeOf :: "string \<Rightarrow> VerifierOutcome" where
  "outcomeOf outcomeRaw =
     (if outcomeRaw = ''pass'' then pass
      else if outcomeRaw = ''minor_fix'' then minor_fix
      else if outcomeRaw = ''critical_fail'' then critical_fail
      else if outcomeRaw = ''abstain'' then abstain
      else pass)"

definition llmVerdict ::
  "VerifyContext \<Rightarrow> VerifierOutcome \<Rightarrow> string list \<Rightarrow> string list \<Rightarrow> string list \<Rightarrow> VerificationVerdict" where
  "llmVerdict ctx oc fs acts refs =
     \<lparr>runId = vc_runId ctx, verifier = ''llm'', outcome = oc, findings = fs,
      requiredActions = acts, evidenceRefs = refs\<rparr>"

text \<open>The body of the \<open>try\<close> block: \<open>Inl\<close> is the exception that reaches its \<open>catch\<close>.\<close>

definition verifyWithModel ::
  "VerifierEnv \<Rightarrow> VerifyContext \<Rightarrow> string \<Rightarrow> string list \<Rightarrow> error + VerificationVerdict" where
  "verifyWithModel env ctx candidate refs =
     (case runOneShotPrompt env (verifierPrompt ctx candidate) ''claude-opus-4-6'' of
        Inl e \<Rightarrow> Inl e
      | Inr raw \<Rightarrow>
          (case parseVerifierOutput env (trimJs raw) of
             Inl e \<Rightarrow> Inl e
           | Inr None \<Rightarrow>
               Inr (llmVerdict ctx pass
                      [''Verifier output could not be parsed; defaulting to pass.''] [] refs)
           | Inr (Some parsed) \<Rightarrow>
               if \<not> truthy parsed \<or> \<not> typeofObject parsed then
                 Inr (llmVerdict ctx pass
                        [''Verifier output could not be parsed; defaulting to pass.''] [] refs)
               else
                 (case (case getProp ''outcome'' parsed of
                          None \<Rightarrow> Inr []
                        | Some oc \<Rightarrow> if truthy oc then jsString (numberToString env) oc else Inr []) of
                    Inl e \<Rightarrow> Inl e
                  | Inr outcomeRaw \<Rightarrow>
                      (case stringArray (numberToString env) (getProp ''findings'' parsed) of
                         Inl e \<Rightarrow> Inl e
                       | Inr fs \<Rightarrow>
                           (case stringArray (numberToString env)
                                   (getProp ''required_actions'' parsed) of
                              Inl e \<Rightarrow> Inl e
                            | Inr acts \<Rightarrow>
                                Inr (llmVerdict ctx (outcomeOf outcomeRaw) fs acts refs))))))"

definition verifyCandidate :: "VerifierEnv \<Rightarrow> VerifyContext \<Rightarrow> string \<Rightarrow> VerificationVerdict" where
  "verifyCandidate env ctx candidate =
     (let refs = extractEvidenceRefs candidate
      in if tooShort candidate then
           llmVerdict ctx critical_fail [''Response is empty or too short.'']
             [''Provide a complete response.''] refs
         else if errorPlaceholder candidate then
           llmVerdict ctx critical_fail [''Agent returned an execution error placeholder.'']
             [''Regenerate a concrete answer.''] refs
         else
           (case verifyWithModel env ctx candidate refs of
              Inr v \<Rightarrow> v
            | Inl (Error msg) \<Rightarrow>
                llmVerdict ctx pass [''Verifier error: '' @ msg @ ''; defaulting to pass.''] [] refs))"

text \<open>
  A toy \<open>JSON.parse\<close> that knows three texts, a model runner that answers in prose, one
  that wraps a verdict in prose, and one that is down.
\<close>

definition toy_parse :: "string \<Rightarrow> error + json" where
  \<open>toy_parse t =
     (if t = ''{"outcome":"critical_fail"}'' then Inr (JObj [(''outcome'', JStr ''critical_fail'')])
      else if t = ''[1]'' then Inr (JArr [JNum 1])
      else if t = ''"ok"'' then Inr (JStr ''ok'')
      else Inl (Error ''Unexpected token''))\<close>

definition prose_env :: VerifierEnv where
  "prose_env = \<lparr>runOneShotPrompt = (\<lambda>prompt model. Inr ''Looks fine to me.''),
     JSON_parse = toy_parse, numberToString = (\<lambda>x. ''1'')\<rparr>"

definition wrapped_env :: VerifierEnv where
  \<open>wrapped_env = \<lparr>runOneShotPrompt = (\<lambda>prompt model. Inr ''Verdict: {"outcome":"critical_fail"} as requested''),
     JSON_parse = toy_parse, numberToString = (\<lambda>x. ''1'')\<rparr>\<close>

definition down_env :: VerifierEnv where
  "down_env = \<lparr>runOneShotPrompt = (\<lambda>prompt model. Inl (Error ''spawn claude ENOENT'')),
     JSON_parse = toy_parse, numberToString = (\<lambda>x. ''1'')\<rparr>"

definition demo_ctx :: VerifyContext where
  "demo_ctx = \<lparr>vc_runId = ''r1'', vc_objective = ''What is the capital of France?'', vc_risk = low\<rparr>"

section \<open>Memory records (src/harness/memory/service.ts, src/harness/repository.ts)\<close>

record MemoryInsertInput =
  mi_recordId :: string
  mi_userId :: string
  mi_category :: string
  mi_key :: string
  mi_value :: string
  mi_confidence :: real
  mi_sourceRunId :: "string option"

definition upsertMemoryRecord :: "MemoryInsertInput \<Rightarrow> 'a harness_state_scheme \<Rightarrow> 'a harness_state_scheme" where
  "upsertMemoryRecord input s =
     s\<lparr>memory_records :=
          upsert record_id
            (\<lambda>old new. old\<lparr>val := val new, confidence := confidence new,
                            source_run_id := source_run_id new,
                            mem_updated_at := mem_updated_at new\<rparr>)
            \<lparr>record_id = mi_recordId input, user_id = mi_userId input,
             category = mi_category input, key = mi_key input, val = mi_value input,
             confidence = mi_confidence input, source_run_id = coalesce (mi_sourceRunId input),
             mem_created_at = now s, mem_updated_at = now s\<rparr>
            (memory_records s)\<rparr>"

text \<open>
  \<open>crypto.createHash('sha1').update(text).digest('hex')\<close> is the parameter \<open>sha1hex\<close>.
\<close>

definition deterministicMemoryId :: "(string \<Rightarrow> string) \<Rightarrow> string \<Rightarrow> string \<Rightarrow> string \<Rightarrow> string" where
  "deterministicMemoryId sha1hex userId cat k =
     ''mem_'' @ slice0 16 (sha1hex (userId @ '':'' @ cat @ '':'' @ toLowerCase k))"

text \<open>
  The five patterns of \<open>buildMemoryRowsFromText\<close> have the shape
  \<open>/\b(phrase|...)\b[separators]*(.+)$/i\<close>. After the phrase the separator class is
  greedy, and \<open>(.+)$\<close> must reach the end of the text without meeting a line terminator:
  the group is what follows the separators, or, when nothing follows them, the last
  separator given back. The leftmost position that matches wins.
\<close>

definition isLineTerminator :: "char \<Rightarrow> bool" where
  "isLineTerminator c = (c = CHR 0x0A \<or> c = CHR 0x0D)"

definition tailCapture :: "(char \<Rightarrow> bool) \<Rightarrow> string \<Rightarrow> string option" where
  "tailCapture sep rest =
     (let run = takeWhile sep rest; tail = dropWhile sep rest
      in if tail \<noteq> [] then (if list_ex isLineTerminator tail then None else Some tail)
         else if run \<noteq> [] \<and> \<not> isLineTerminator (last run) then Some [last run]
         else None)"

definition phraseAt :: "string list \<Rightarrow> (char \<Rightarrow> bool) \<Rightarrow> char option \<Rightarrow> string \<Rightarrow> string option" where
  "phraseAt phrases sep prev input =
     (if \<not> boundaryBefore prev then None
      else firstSome
             (\<lambda>p. if startsWithCI p input \<and> boundaryAfter (drop (length p) input)
                  then tailCapture sep (drop (length p) input) else None)
             phrases)"

definition phraseMatch :: "string list \<Rightarrow> (char \<Rightarrow> bool) \<Rightarrow> string \<Rightarrow> string option" where
  "phraseMatch phrases sep text = firstPos (phraseAt phrases sep) None text"

definition sepColonDash :: "char \<Rightarrow> bool" where
  "sepColonDash c = (c = CHR '':'' \<or> isSpaceJs c \<or> c = CHR ''-'')"

definition sepCommaColonDash :: "char \<Rightarrow> bool" where
  "sepCommaColonDash c = (c = CHR '','' \<or> c = CHR '':'' \<or> isSpaceJs c \<or> c = CHR ''-'')"

text \<open>\<open>/\b(always|must)\b/i.test(s)\<close> and \<open>/\bproject\b/.test(s)\<close>.\<close>

definition alwaysOrMust :: "string \<Rightarrow> bool" where
  "alwaysOrMust s =
     anyPos (\<lambda>prev input. boundaryBefore prev
               \<and> ((startsWithCI ''always'' input \<and> boundaryAfter (drop 6 input))
                  \<or> (startsWithCI ''must'' input \<and> boundaryAfter (drop 4 input)))) None s"

definition wordProject :: "string \<Rightarrow> bool" where
  "wordProject s =
     anyPos (\<lambda>prev input. boundaryBefore prev \<and> prefix ''project'' input
               \<and> boundaryAfter (drop 7 input)) None s"

definition memoryRow :: "string \<Rightarrow> string \<Rightarrow> string \<Rightarrow> real \<Rightarrow> MemoryInsertInput" where
  "memoryRow cat k v c =
     \<lparr>mi_recordId = [], mi_userId = [], mi_category = cat, mi_key = k, mi_value = v,
      mi_confidence = c, mi_sourceRunId = None\<rparr>"

definition buildMemoryRowsFromText :: "string \<Rightarrow> MemoryInsertInput list" where
  "buildMemoryRowsFromText text =
     (let lower = toLowerCase text
      in (case phraseMatch [''i prefer'', ''please always'', ''my preference is'', ''i usually'']
                  sepColonDash text of
            Some g \<Rightarrow> [memoryRow ''preferences'' ''preference'' (trimJs g)
                         (if alwaysOrMust g then 0.95 else 0.85)]
          | None \<Rightarrow> [])
       @ (case phraseMatch [''this is my workflow'', ''how i do this'', ''process is'']
                  sepColonDash text of
            Some g \<Rightarrow> [memoryRow ''workflows'' ''workflow'' (trimJs g) 0.82]
          | None \<Rightarrow> [])
       @ (case phraseMatch [''project'', ''working on'', ''build''] sepColonDash text of
            Some g \<Rightarrow> if wordProject lower
                      then [memoryRow ''projects'' ''active_project'' (trimJs g) 0.7] else []
          | None \<Rightarrow> [])
       @ (case phraseMatch [''remember that'', ''remind me'', ''i need to''] sepColonDash text of
            Some g \<Rightarrow> [memoryRow ''task_states'' ''task_state'' (trimJs g) 0.72]
          | None \<Rightarrow> [])
       @ (case phraseMatch [''actually''] sepCommaColonDash text of
            Some g \<Rightarrow> [memoryRow ''confirmed_facts'' ''explicit_correction'' (trimJs g) 0.9]
          | None \<Rightarrow> []))"

text \<open>
  The \<open>Map\<close> that deduplicates the extracted rows, as the list of its entries in
  insertion order: a row replaces the entry of its key only with a higher confidence.
\<close>

definition dedupKey :: "MemoryInsertInput \<Rightarrow> string" where
  "dedupKey row = mi_category row @ '':'' @ mi_key row @ '':'' @ toLowerCase (mi_value row)"

definition dedupStep ::
  "(string \<times> MemoryInsertInput) list \<Rightarrow> MemoryInsertInput \<Rightarrow> (string \<times> MemoryInsertInput) list" where
  "dedupStep acc row =
     (case map_of acc (dedupKey row) of
        None \<Rightarrow> acc @ [(dedupKey row, row)]
      | Some existing \<Rightarrow>
          if mi_confidence row > mi_confidence existing
          then map (\<lambda>e. if fst e = dedupKey row then (fst e, row) else e) acc
          else acc)"

definition dedupRows :: "MemoryInsertInput list \<Rightarrow> MemoryInsertInput list" where
  "dedupRows rawRows = map snd (foldl dedupStep [] rawRows)"

text \<open>The record each deduplicated row is stored as.\<close>

definition stableRow ::
  "(string \<Rightarrow> string) \<Rightarrow> string \<Rightarrow> string \<Rightarrow> MemoryInsertInput \<Rightarrow> MemoryInsertInput" where
  "stableRow sha1hex userId rid row =
     \<lparr>mi_recordId = deterministicMemoryId sha1hex userId (mi_category row) (mi_key row),
      mi_userId = userId, mi_category = mi_category row, mi_key = mi_key row,
      mi_value = mi_value row, mi_confidence = mi_confidence row, mi_sourceRunId = Some rid\<rparr>"

definition ingestMemorySignals ::
  "(string \<Rightarrow> string) \<Rightarrow> string \<Rightarrow> string \<Rightarrow> string \<Rightarrow> string \<Rightarrow> 'a harness_state_scheme
     \<Rightarrow> nat \<times> 'a harness_state_scheme" where
  "ingestMemorySignals sha1hex userId rid objectiveText responseText s =
     (let rawRows = buildMemoryRowsFromText objectiveText @ buildMemoryRowsFromText responseText
      in if rawRows = [] then (0, s)
         else (length (dedupRows rawRows),
               fold (\<lambda>row st. upsertMemoryRecord (stableRow sha1hex userId rid row) st)
                 (dedupRows rawRows) s))"

text \<open>
  The store's invariant: record ids are unique (the primary key) and each is the
  deterministic id of its row's user, category and key.
\<close>

definition memoryKeyed :: "(string \<Rightarrow> string) \<Rightarrow> 'a harness_state_scheme \<Rightarrow> bool" where
  "memoryKeyed sha1hex s =
     (distinct (map record_id (memory_records s))
      \<and> list_all (\<lambda>r. record_id r = deterministicMemoryId sha1hex (user_id r) (category r) (key r))
           (memory_records s))"

text \<open>The store holds value \<open>v\<close> with confidence \<open>c\<close> under the record id \<open>rid\<close>.\<close>

definition storedAs :: "string \<Rightarrow> string \<Rightarrow> real \<Rightarrow> 'a harness_state_scheme \<Rightarrow> bool" where
  "storedAs rid v c s =
     list_ex (\<lambda>r. record_id r = rid \<and> val r = v \<and> confidence r = c) (memory_records s)"

text \<open>A stand-in digest, and two turns of the same user.\<close>

definition toy_sha :: "string \<Rightarrow> string" where
  "toy_sha text = text"

definition after_first_turn :: harness_state where
  "after_first_turn =
     snd (ingestMemorySignals toy_sha ''u1'' ''run_1'' ''I prefer to always use tabs'' ''Noted.''
            empty_state)"

definition after_second_turn :: harness_state where
  "after_second_turn =
     snd (ingestMemorySignals toy_sha ''u1'' ''run_2'' ''I prefer spaces'' ''Noted.''
            (after_first_turn\<lparr>clock := 2000\<rparr>))"

section \<open>Inputs of the repository's harness test runner\<close>

definition smoke_request :: ToolExecutionInput where
  "smoke_request = \<lparr>in_runId = ''run_tool_gate'', in_userId = ''u1'', in_objective = ''npm --version'',
     in_candidateOutput = None, in_workspacePath = ''/repo''\<rparr>"

definition smoke_pending_state :: harness_state where
  "smoke_pending_state =
     rememberPendingMessage ''msg_harness_test'' ''whatsapp'' ''tester'' ''123''
       (Some ''123@c.us'') (Some ''abc'') (Some 60000) empty_state"

section \<open>Loop budget\<close>







section \<open>Supersession of blocked runs\<close>

lemma fold_mark:
  assumes "\<And>r. run_id (f r) = run_id r" "\<And>r. f (f r) = f r"
  shows "fold (\<lambda>row st. st\<lparr>task_runs := update_where (\<lambda>r. run_id r = run_id row) f (task_runs st)\<rparr>) rows s
     = s\<lparr>task_runs := map (\<lambda>r. if run_id r \<in> run_id ` set rows then f r else r) (task_runs s)\<rparr>"
    (is "fold ?F rows s = _")
proof (induction rows arbitrary: s)
  case Nil
  then show ?case by simp
next
  case (Cons a rows)
  have "fold ?F (a # rows) s = fold ?F rows (?F a s)" by simp
  also have "\<dots> = (?F a s)\<lparr>task_runs := map (\<lambda>r. if run_id r \<in> run_id ` set rows then f r else r)
                                   (task_runs (?F a s))\<rparr>"
    by (rule Cons.IH)
  also have "\<dots> = s\<lparr>task_runs := map (\<lambda>r. if run_id r \<in> run_id ` set (a # rows) then f r else r)
                                   (task_runs s)\<rparr>"
    by (auto simp: update_where_def assms)
  finally show ?case .
qed

lemma supersede_eq:
  assumes "senderId \<noteq> []"
  shows "supersedeNeedsInputRuns ch senderId beforeTs s =
     (let picked = take 200 (sort_key updated_at (filter (needsInputBefore ch senderId beforeTs) (task_runs s)))
      in (map run_id picked,
          s\<lparr>task_runs := map (\<lambda>r. if run_id r \<in> run_id ` set picked
                                   then r\<lparr>status := ''rejected'', updated_at := now s\<rparr> else r) (task_runs s)\<rparr>))"
  using assms
  by (simp add: supersedeNeedsInputRuns_def Let_def fold_mark)

lemma picked_iff:
  assumes d: "distinct (map run_id runs)" and sub: "set picked \<subseteq> set runs" and r: "r \<in> set runs"
  shows "run_id r \<in> run_id ` set picked \<longleftrightarrow> r \<in> set picked"
proof
  assume "run_id r \<in> run_id ` set picked"
  then obtain p where p: "p \<in> set picked" "run_id p = run_id r" by auto
  with sub have "p \<in> set runs" by auto
  with d r p(2) have "p = r" by (meson distinct_map inj_onD)
  with p show "r \<in> set picked" by simp
qed auto

lemma take_sorted_oldest:
  assumes "sorted (map f xs)" "a \<in> set (take n xs)" "b \<in> set xs" "b \<notin> set (take n xs)"
  shows "f a \<le> f b"
proof -
  from assms(3,4) have "b \<in> set (drop n xs)"
    by (metis Un_iff append_take_drop_id set_append)
  moreover have "sorted (map f (take n xs) @ map f (drop n xs))"
    using assms(1) by (metis append_take_drop_id map_append)
  ultimately show ?thesis
    using assms(2) by (auto simp: sorted_append)
qed

text \<open>
  C4 (as amended). For a non-empty senderId, on a table whose run ids are unique (the
  primary key), supersedeNeedsInputRuns selects the needs_input runs of (channel,
  senderId) last updated before the cutoff, takes the 200 oldest of them, returns exactly
  their ids in that order, sets exactly those rows to rejected with the current time, and
  changes nothing else. When at most 200 runs match, these are all of them.
\<close>

theorem supersede_marks_oldest:
  assumes ne: "senderId \<noteq> []" and pk: "distinct (map run_id (task_runs s))"
  shows "let matching = filter (needsInputBefore ch senderId beforeTs) (task_runs s);
             picked = take 200 (sort_key updated_at matching);
             res = supersedeNeedsInputRuns ch senderId beforeTs s
         in fst res = map run_id picked
          \<and> snd res = s\<lparr>task_runs := map (\<lambda>r. if r \<in> set picked
                                 then r\<lparr>status := ''rejected'', updated_at := now s\<rparr> else r) (task_runs s)\<rparr>
          \<and> set picked \<subseteq> set matching
          \<and> (length matching \<le> 200 \<longrightarrow> set picked = set matching)
          \<and> (\<forall>p \<in> set picked. \<forall>m \<in> set matching. m \<notin> set picked \<longrightarrow> updated_at p \<le> updated_at m)"
proof -
  define matching where "matching = filter (needsInputBefore ch senderId beforeTs) (task_runs s)"
  define picked where "picked = take 200 (sort_key updated_at matching)"
  have sub: "set picked \<subseteq> set matching"
    unfolding picked_def by (metis set_sort set_take_subset)
  then have sub': "set picked \<subseteq> set (task_runs s)"
    unfolding matching_def by auto
  have maps: "map (\<lambda>r. if run_id r \<in> run_id ` set picked
                         then r\<lparr>status := ''rejected'', updated_at := now s\<rparr> else r) (task_runs s)
            = map (\<lambda>r. if r \<in> set picked
                         then r\<lparr>status := ''rejected'', updated_at := now s\<rparr> else r) (task_runs s)"
    by (rule map_cong[OF refl]) (simp only: picked_iff[OF pk sub'])
  have all: "set picked = set matching" if "length matching \<le> 200"
    using that unfolding picked_def by simp
  have old: "updated_at p \<le> updated_at m"
    if "p \<in> set picked" "m \<in> set matching" "m \<notin> set picked" for p m
    using take_sorted_oldest[of updated_at "sort_key updated_at matching" p 200 m] that
    unfolding picked_def by simp
  show ?thesis
    using supersede_eq[OF ne, of ch beforeTs s] maps sub all old
    unfolding Let_def matching_def[symmetric] picked_def[symmetric]
    by (simp add: Let_def matching_def[symmetric] picked_def[symmetric])
qed

lemma crowded_matching:
  "filter (needsInputBefore ''telegram'' ''u1'' 1000) (task_runs crowded_state) = task_runs crowded_state"
  by (simp add: crowded_state_def needsInputBefore_def mkRun_def empty_state_def)

lemma crowded_sorted:
  "sort_key updated_at (task_runs crowded_state) = task_runs crowded_state"
proof -
  have "map updated_at (task_runs crowded_state) = map int [0..<201]"
    by (simp add: crowded_state_def mkRun_def empty_state_def comp_def)
  moreover have "sorted (map int [0..<201])"
    by (simp add: sorted_map)
  ultimately show ?thesis
    by (simp add: sort_key_id_if_sorted)
qed

theorem supersede_limit_counterexample:
  "length (filter (needsInputBefore ''telegram'' ''u1'' 1000) (task_runs crowded_state)) = 201
   \<and> length (fst (supersedeNeedsInputRuns ''telegram'' ''u1'' 1000 crowded_state)) = 200
   \<and> needsInputBefore ''telegram'' ''u1'' 1000 (task_runs crowded_state ! 200)
   \<and> status (task_runs (snd (supersedeNeedsInputRuns ''telegram'' ''u1'' 1000 crowded_state)) ! 200)
       = ''needs_input''"
proof -
  let ?runs = "task_runs crowded_state"
  have len: "length ?runs = 201"
    by (simp add: crowded_state_def empty_state_def)
  have row: "?runs ! 200 = mkRun (replicate 201 CHR ''r'') ''needs_input'' 0 200"
    by (simp add: crowded_state_def empty_state_def del: replicate.simps upt_Suc)
  have picked: "take 200 ?runs = map (\<lambda>i. mkRun (replicate (Suc i) CHR ''r'') ''needs_input'' 0 (int i)) [0..<200]"
    by (simp add: crowded_state_def empty_state_def take_map del: replicate.simps upt_Suc)
  have notin: "run_id (?runs ! 200) \<notin> run_id ` set (take 200 ?runs)"
  proof
    assume "run_id (?runs ! 200) \<in> run_id ` set (take 200 ?runs)"
    then obtain i where "i < 200" "replicate 201 CHR ''r'' = replicate (Suc i) CHR ''r''"
      unfolding row picked by (auto simp: mkRun_def simp del: replicate.simps)
    then have "length (replicate 201 CHR ''r'') = length (replicate (Suc i) CHR ''r'')" by simp
    with \<open>i < 200\<close> show False by simp
  qed
  have m: "needsInputBefore ''telegram'' ''u1'' 1000 (?runs ! 200)"
    unfolding row by (simp add: needsInputBefore_def mkRun_def)
  have st: "status (?runs ! 200) = ''needs_input''"
    unfolding row by (simp add: mkRun_def)
  show ?thesis
    using len notin m st
    by (simp add: supersede_eq Let_def crowded_matching crowded_sorted)
qed

theorem supersede_marks_oldest_witness:
  "fst (supersedeNeedsInputRuns ''telegram'' ''u1'' 1000 overlapping_state) = [''run_b'', ''run_a'']
   \<and> map status (task_runs (snd (supersedeNeedsInputRuns ''telegram'' ''u1'' 1000 overlapping_state)))
       = [''rejected'', ''rejected'']"
proof -
  have ne: "''u1'' \<noteq> []" by simp
  have pk: "distinct (map run_id (task_runs overlapping_state))"
    by (simp add: overlapping_state_def empty_state_def mkRun_def)
  have sorted: "sort_key updated_at (filter (needsInputBefore ''telegram'' ''u1'' 1000)
                   (task_runs overlapping_state))
                = [mkRun ''run_b'' ''needs_input'' 50 60, mkRun ''run_a'' ''needs_input'' 10 100]"
    by (simp add: overlapping_state_def empty_state_def mkRun_def needsInputBefore_def)
  show ?thesis
    using supersede_marks_oldest[OF ne pk, of "''telegram''" 1000]
    by (simp add: Let_def sorted) (simp add: overlapping_state_def empty_state_def mkRun_def)
qed

text \<open>
  C10. With an empty senderId, supersedeNeedsInputRuns returns the empty list and the
  state it was given: no row of any table is written.
\<close>

theorem supersede_empty_sender:
  "supersedeNeedsInputRuns ch [] beforeTs s = ([], s)"
  by (simp add: supersedeNeedsInputRuns_def)

theorem supersede_empty_sender_witness:
  "supersedeNeedsInputRuns ''telegram'' [] 1000 overlapping_state = ([], overlapping_state)"
  using supersede_empty_sender[of "''telegram''" 1000 overlapping_state] by simp

section \<open>Blocked runs listed for outreach\<close>

lemma blocked_listed:
  assumes "b \<in> set (listBlockedRunsForOutreach scanRank minAgeMs limit s)"
  obtains tr where "tr \<in> set (task_runs s)" "b = blockedRow tr"
    "blockedForOutreach (task_runs s) (now s - max 0 minAgeMs) tr"
proof -
  from assms obtain tr where
    "tr \<in> set (take (nat (max 1 (min limit 1000)))
              (sort_key updated_at
                 (sort_key scanRank
                    (filter (blockedForOutreach (task_runs s) (now s - max 0 minAgeMs)) (task_runs s)))))"
    "b = blockedRow tr"
    by (auto simp: listBlockedRunsForOutreach_def Let_def)
  then have "tr \<in> set (filter (blockedForOutreach (task_runs s) (now s - max 0 minAgeMs)) (task_runs s))"
    by (metis in_set_takeD set_sort)
  with \<open>b = blockedRow tr\<close> that show thesis by auto
qed

text \<open>
  C5 (as amended). Every row listBlockedRunsForOutreach returns is a run in status
  needs_input or awaiting_approval with a non-empty senderId, last updated at least
  minAge ago, such that no other run of the same channel and senderId was created after
  its last update. Two listed runs of the same channel and senderId are therefore runs
  neither of which was created after the other's last update. This holds for every
  limit and for every order in which the scan yields rows with equal \<open>updated_at\<close>.
\<close>

theorem blocked_runs_for_outreach:
  "(\<forall>b \<in> set (listBlockedRunsForOutreach scanRank minAgeMs limit s).
      \<exists>tr \<in> set (task_runs s). b = blockedRow tr
        \<and> (status tr = ''needs_input'' \<or> status tr = ''awaiting_approval'')
        \<and> sender_id tr = Some (br_sender_id b) \<and> br_sender_id b \<noteq> []
        \<and> updated_at tr \<le> now s - max 0 minAgeMs
        \<and> (\<forall>other \<in> set (task_runs s).
              channel other = channel tr \<and> sender_id other = sender_id tr
              \<and> run_id other \<noteq> run_id tr \<longrightarrow> created_at other \<le> updated_at tr))
   \<and> (\<forall>b1 \<in> set (listBlockedRunsForOutreach scanRank minAgeMs limit s).
       \<forall>b2 \<in> set (listBlockedRunsForOutreach scanRank minAgeMs limit s).
         br_channel b1 = br_channel b2 \<and> br_sender_id b1 = br_sender_id b2
         \<and> br_run_id b1 \<noteq> br_run_id b2
         \<longrightarrow> br_created_at b1 \<le> br_updated_at b2 \<and> br_created_at b2 \<le> br_updated_at b1)"
proof -
  have row: "\<exists>tr \<in> set (task_runs s). b = blockedRow tr
        \<and> (status tr = ''needs_input'' \<or> status tr = ''awaiting_approval'')
        \<and> sender_id tr = Some (br_sender_id b) \<and> br_sender_id b \<noteq> []
        \<and> updated_at tr \<le> now s - max 0 minAgeMs
        \<and> (\<forall>other \<in> set (task_runs s).
              channel other = channel tr \<and> sender_id other = sender_id tr
              \<and> run_id other \<noteq> run_id tr \<longrightarrow> created_at other \<le> updated_at tr)"
    if "b \<in> set (listBlockedRunsForOutreach scanRank minAgeMs limit s)" for b
  proof -
    from that obtain tr where tr: "tr \<in> set (task_runs s)" "b = blockedRow tr"
      "blockedForOutreach (task_runs s) (now s - max 0 minAgeMs) tr"
      by (rule blocked_listed)
    from tr(3) obtain x where x: "sender_id tr = Some x" "x \<noteq> []"
      by (auto simp: blockedForOutreach_def)
    have "created_at other \<le> updated_at tr"
      if "other \<in> set (task_runs s)" "channel other = channel tr"
         "sender_id other = sender_id tr" "run_id other \<noteq> run_id tr" for other
    proof (rule ccontr)
      assume "\<not> created_at other \<le> updated_at tr"
      with that x have "hasNewerSibling (task_runs s) tr"
        by (auto simp: hasNewerSibling_def list_ex_iff)
      with tr(3) show False by (simp add: blockedForOutreach_def)
    qed
    with tr x show ?thesis
      by (auto simp: blockedForOutreach_def blockedRow_def coalesce_def)
  qed
  have pair: "br_created_at b1 \<le> br_updated_at b2"
    if b1: "b1 \<in> set (listBlockedRunsForOutreach scanRank minAgeMs limit s)"
    and b2: "b2 \<in> set (listBlockedRunsForOutreach scanRank minAgeMs limit s)"
    and same: "br_channel b1 = br_channel b2" "br_sender_id b1 = br_sender_id b2"
      "br_run_id b1 \<noteq> br_run_id b2" for b1 b2
  proof -
    from row[OF b1] obtain t1 where t1: "t1 \<in> set (task_runs s)" "b1 = blockedRow t1"
      "sender_id t1 = Some (br_sender_id b1)" by blast
    from row[OF b2] obtain t2 where t2: "t2 \<in> set (task_runs s)" "b2 = blockedRow t2"
      "sender_id t2 = Some (br_sender_id b2)"
      and newest: "\<forall>other \<in> set (task_runs s).
              channel other = channel t2 \<and> sender_id other = sender_id t2
              \<and> run_id other \<noteq> run_id t2 \<longrightarrow> created_at other \<le> updated_at t2" by blast
    have p1: "br_channel b1 = channel t1" "br_run_id b1 = run_id t1" "br_created_at b1 = created_at t1"
      unfolding t1(2) by (simp_all add: blockedRow_def)
    have p2: "br_channel b2 = channel t2" "br_run_id b2 = run_id t2" "br_updated_at b2 = updated_at t2"
      unfolding t2(2) by (simp_all add: blockedRow_def)
    from same p1 p2 t1(3) t2(3) have "channel t1 = channel t2 \<and> sender_id t1 = sender_id t2
      \<and> run_id t1 \<noteq> run_id t2"
      by simp
    with newest t1(1) have "created_at t1 \<le> updated_at t2" by blast
    with p1 p2 show ?thesis by simp
  qed
  have both: "br_created_at b1 \<le> br_updated_at b2 \<and> br_created_at b2 \<le> br_updated_at b1"
    if "b1 \<in> set (listBlockedRunsForOutreach scanRank minAgeMs limit s)"
       "b2 \<in> set (listBlockedRunsForOutreach scanRank minAgeMs limit s)"
       "br_channel b1 = br_channel b2 \<and> br_sender_id b1 = br_sender_id b2
         \<and> br_run_id b1 \<noteq> br_run_id b2" for b1 b2
    using pair[of b1 b2] pair[of b2 b1] that by auto
  from row both show ?thesis by blast
qed

theorem blocked_runs_for_outreach_witness:
  "map br_run_id (listBlockedRunsForOutreach statusRank 0 100 overlapping_state) = [''run_b'', ''run_a'']
   \<and> br_created_at (hd (listBlockedRunsForOutreach statusRank 0 100 overlapping_state))
       \<le> br_updated_at (last (listBlockedRunsForOutreach statusRank 0 100 overlapping_state))"
proof -
  have l: "listBlockedRunsForOutreach statusRank 0 100 overlapping_state
           = [blockedRow (mkRun ''run_b'' ''needs_input'' 50 60),
              blockedRow (mkRun ''run_a'' ''needs_input'' 10 100)]"
    by (simp add: listBlockedRunsForOutreach_def overlapping_state_def empty_state_def now_def
          blockedForOutreach_def hasNewerSibling_def mkRun_def statusRank_def)
  have "br_created_at (blockedRow (mkRun ''run_b'' ''needs_input'' 50 60))
          \<le> br_updated_at (blockedRow (mkRun ''run_a'' ''needs_input'' 10 100))"
    using blocked_runs_for_outreach[of statusRank 0 100 overlapping_state]
    unfolding l by (simp add: blockedRow_def mkRun_def)
  then show ?thesis
    unfolding l by (simp add: blockedRow_def mkRun_def)
qed

text \<open>
  The claim as stated fails: both runs of the same sender are listed, since neither was
  created after the other's last update.
\<close>

theorem blocked_runs_same_sender_counterexample:
  "map br_run_id (listBlockedRunsForOutreach statusRank 0 100 overlapping_state) = [''run_b'', ''run_a'']
   \<and> map br_channel (listBlockedRunsForOutreach statusRank 0 100 overlapping_state) = [''telegram'', ''telegram'']
   \<and> map br_sender_id (listBlockedRunsForOutreach statusRank 0 100 overlapping_state) = [''u1'', ''u1'']"
  by (simp add: listBlockedRunsForOutreach_def overlapping_state_def empty_state_def now_def
        blockedForOutreach_def hasNewerSibling_def mkRun_def blockedRow_def coalesce_def
        statusRank_def)

section \<open>The tooling executor: allowlist and approval\<close>

lemma spawned_incrementMetric [simp]:
  "spawned (snd (incrementMetric n d m s)) = spawned s"
  by (simp add: incrementMetric_def Let_def)

lemma spawned_upsertTool [simp]:
  "spawned (upsertTool i n src tc st m s) = spawned s"
  by (simp add: upsertTool_def)

lemma spawned_upsertPermission [simp]:
  "spawned (upsertPermission p u sb a r st s) = spawned s"
  by (simp add: upsertPermission_def)

lemma spawned_appendToolEvent [simp]:
  "spawned (appendToolEvent i e p s) = spawned s"
  by (simp add: appendToolEvent_def)

lemma permissions_incrementMetric [simp]:
  "permissions (snd (incrementMetric n d m s)) = permissions s"
  by (simp add: incrementMetric_def Let_def)

lemma permissions_upsertTool [simp]:
  "permissions (upsertTool i n src tc st m s) = permissions s"
  by (simp add: upsertTool_def)

lemma permissions_appendToolEvent [simp]:
  "permissions (appendToolEvent i e p s) = permissions s"
  by (simp add: appendToolEvent_def)

lemma now_upsertTool [simp]:
  "now (upsertTool i n src tc st m s) = now s"
  by (simp add: upsertTool_def now_def)

lemma hasActivePermission_upsertTool [simp]:
  "hasActivePermission u sb a (upsertTool i n src tc st m s) = hasActivePermission u sb a s"
  by (simp add: hasActivePermission_def)

lemma hasShellMeta_iff:
  "hasShellMeta command \<longleftrightarrow> set command \<inter> {CHR '';'', CHR ''&'', CHR ''|'', CHR 0x60} \<noteq> {}"
  by (auto simp: hasShellMeta_def list_ex_iff)

lemma sanitize_ok_iff:
  "ok (sanitizeCommand command) \<longleftrightarrow>
     trimJs command \<noteq> [] \<and> \<not> hasShellMeta command \<and> \<not> hasSudo command \<and> \<not> hasRmRf command
     \<and> (\<exists>t ts. tokenizeCommand command = t # ts \<and> toLowerCase t \<in> set ALLOWED_TOOLS)"
  by (auto simp: sanitizeCommand_def Let_def split: list.splits)

lemma executeCommand_spawned:
  "tokenizeCommand command = bin # args
     \<Longrightarrow> spawned (snd (executeCommand env command cwd s)) = spawned s @ [(bin, args)]"
  by (simp add: executeCommand_def)

lemma execute_rejected:
  assumes "\<not> ok (sanitizeCommand (extractCommandCandidate (sourceTextOf input)))"
  shows "te_status (fst (executeToolingTask env input s)) = needs_input"
    and "spawned (snd (executeToolingTask env input s)) = spawned s"
    and "permissions (snd (executeToolingTask env input s)) = permissions s"
  using assms by (simp_all add: executeToolingTask_def Let_def)

lemma execute_unapproved:
  assumes "ok (sanitizeCommand (extractCommandCandidate (sourceTextOf input)))"
    and "tokenizeCommand (extractCommandCandidate (sourceTextOf input)) = t # ts"
    and "\<not> hasActivePermission (in_userId input) (toLowerCase t) ''execute'' s"
  shows "fst (executeToolingTask env input s) =
           \<lparr>te_status = needs_approval,
            te_message = approvalMessage (toLowerCase t) (''perm_'' @ randomUUID env),
            te_requestId = Some (''perm_'' @ randomUUID env), te_toolName = Some (toLowerCase t),
            te_command = Some (extractCommandCandidate (sourceTextOf input)),
            te_outputSnippet = None\<rparr>"
    and "spawned (snd (executeToolingTask env input s)) = spawned s"
    and "permissions (snd (executeToolingTask env input s)) =
           permissions (upsertPermission (''perm_'' @ randomUUID env) (in_userId input) (toLowerCase t)
                          ''execute'' ''tool'' ''pending'' s)"
  using assms by (simp_all add: executeToolingTask_def Let_def upsertPermission_def)

lemma execute_approved:
  assumes "ok (sanitizeCommand (extractCommandCandidate (sourceTextOf input)))"
    and "tokenizeCommand (extractCommandCandidate (sourceTextOf input)) = t # ts"
    and "hasActivePermission (in_userId input) (toLowerCase t) ''execute'' s"
  shows "spawned (snd (executeToolingTask env input s)) = spawned s @ [(t, ts)]"
  using assms
  by (simp add: executeToolingTask_def Let_def executeCommand_def split: prod.splits)

text \<open>
  What sanitizeCommand does ensure. A command it rejects (empty, one of the characters
  ; & | `, a match of its pattern for sudo or for rm -rf, or a first token whose
  lower-case form is not allowlisted) gives needs_input and starts no process; and
  executeToolingTask starts at most one process, whose argv is the token list of a
  command that passed these tests. The tests read the text of the command and the
  lower-cased first token; the process is started from the tokens as written.
\<close>

lemma executeToolingTask_starts_checked_command:
  "let command = extractCommandCandidate (sourceTextOf input);
       res = executeToolingTask env input s
   in (\<not> ok (sanitizeCommand command)
         \<longrightarrow> te_status (fst res) = needs_input \<and> spawned (snd res) = spawned s)
    \<and> (set command \<inter> {CHR '';'', CHR ''&'', CHR ''|'', CHR 0x60} \<noteq> {}
         \<or> hasSudo command \<or> hasRmRf command
         \<or> (\<exists>t ts. tokenizeCommand command = t # ts \<and> toLowerCase t \<notin> set ALLOWED_TOOLS)
         \<longrightarrow> \<not> ok (sanitizeCommand command))
    \<and> (spawned (snd res) = spawned s
        \<or> (\<exists>bin args. spawned (snd res) = spawned s @ [(bin, args)]
              \<and> tokenizeCommand command = bin # args
              \<and> toLowerCase bin \<in> set ALLOWED_TOOLS
              \<and> set command \<inter> {CHR '';'', CHR ''&'', CHR ''|'', CHR 0x60} = {}
              \<and> \<not> hasSudo command \<and> \<not> hasRmRf command))"
proof -
  define command where "command = extractCommandCandidate (sourceTextOf input)"
  define res where "res = executeToolingTask env input s"
  have a: "te_status (fst res) = needs_input \<and> spawned (snd res) = spawned s"
    if "\<not> ok (sanitizeCommand command)"
    using that execute_rejected[of input env s] by (simp add: command_def res_def)
  have b: "\<not> ok (sanitizeCommand command)"
    if "set command \<inter> {CHR '';'', CHR ''&'', CHR ''|'', CHR 0x60} \<noteq> {}
         \<or> hasSudo command \<or> hasRmRf command
         \<or> (\<exists>t ts. tokenizeCommand command = t # ts \<and> toLowerCase t \<notin> set ALLOWED_TOOLS)"
    using that by (auto simp: sanitize_ok_iff hasShellMeta_iff)
  have c: "spawned (snd res) = spawned s
        \<or> (\<exists>bin args. spawned (snd res) = spawned s @ [(bin, args)]
              \<and> tokenizeCommand command = bin # args
              \<and> toLowerCase bin \<in> set ALLOWED_TOOLS
              \<and> set command \<inter> {CHR '';'', CHR ''&'', CHR ''|'', CHR 0x60} = {}
              \<and> \<not> hasSudo command \<and> \<not> hasRmRf command)"
  proof (cases "ok (sanitizeCommand command)")
    case False
    with a show ?thesis by simp
  next
    case True
    then obtain t ts where tok: "tokenizeCommand command = t # ts"
      and allowed: "toLowerCase t \<in> set ALLOWED_TOOLS"
      and clean: "set command \<inter> {CHR '';'', CHR ''&'', CHR ''|'', CHR 0x60} = {}"
        "\<not> hasSudo command" "\<not> hasRmRf command"
      by (auto simp: sanitize_ok_iff hasShellMeta_iff)
    show ?thesis
    proof (cases "hasActivePermission (in_userId input) (toLowerCase t) ''execute'' s")
      case False
      with True tok have "spawned (snd res) = spawned s"
        unfolding res_def command_def by (rule execute_unapproved(2))
      then show ?thesis by simp
    next
      case perm: True
      with True tok have "spawned (snd res) = spawned s @ [(t, ts)]"
        unfolding res_def command_def by (rule execute_approved)
      with tok allowed clean show ?thesis by blast
    qed
  qed
  from a b c show ?thesis
    unfolding Let_def command_def[symmetric] res_def[symmetric] by blast
qed

text \<open>
  C1. The claim fails on the code. For the objective \<open>NPM install\<close> and a user who holds
  the permission for npm, the command passes sanitizeCommand, which compares the
  lower-cased first token with the allowlist, and executeToolingTask starts a process
  whose argv[0] is \<open>NPM\<close>, the token as written, which is not in the allowlist. For the
  objective \<open>git rm "-rf" build\<close> and a user who holds the permission for git, the
  command passes sanitizeCommand, whose pattern for rm -rf is tested on the text before
  the quotes are removed, and the process started has the argv git, rm, -rf, build.
\<close>

theorem tooling_allowlist_failing_inputs:
  "ok (sanitizeCommand (extractCommandCandidate (sourceTextOf shout_request)))
   \<and> te_status (fst (executeToolingTask quiet_env shout_request granted_state)) = completed
   \<and> spawned (snd (executeToolingTask quiet_env shout_request granted_state)) = [(''NPM'', [''install''])]
   \<and> ''NPM'' \<notin> set ALLOWED_TOOLS
   \<and> extractCommandCandidate (sourceTextOf quoted_rm_request) = in_objective quoted_rm_request
   \<and> ok (sanitizeCommand (extractCommandCandidate (sourceTextOf quoted_rm_request)))
   \<and> te_status (fst (executeToolingTask quiet_env quoted_rm_request git_granted_state)) = completed
   \<and> spawned (snd (executeToolingTask quiet_env quoted_rm_request git_granted_state))
       = [(''git'', [''rm'', ''-rf'', ''build''])]"
  by code_simp

text \<open>
  C9. When the extracted command passes sanitizeCommand, the user holds no active
  (user, tool, execute) permission and the generated request id is not yet a permission
  id, executeToolingTask appends one pending permission row under that id, returns
  needs_approval carrying the id, with a message that names it, and starts no process.
\<close>

theorem tooling_needs_approval:
  assumes "ok (sanitizeCommand (extractCommandCandidate (sourceTextOf input)))"
    and "tokenizeCommand (extractCommandCandidate (sourceTextOf input)) = t # ts"
    and "\<not> hasActivePermission (in_userId input) (toLowerCase t) ''execute'' s"
    and "''perm_'' @ randomUUID env \<notin> permission_id ` set (permissions s)"
  shows "let res = executeToolingTask env input s; requestId = ''perm_'' @ randomUUID env
         in te_status (fst res) = needs_approval
          \<and> te_requestId (fst res) = Some requestId
          \<and> te_toolName (fst res) = Some (toLowerCase t)
          \<and> sublist requestId (te_message (fst res))
          \<and> permissions (snd res) = permissions s @
               [\<lparr>permission_id = requestId, perm_user_id = in_userId input,
                 subject = toLowerCase t, action = ''execute'', resource = ''tool'',
                 perm_status = ''pending'', perm_created_at = now s, perm_updated_at = now s\<rparr>]
          \<and> spawned (snd res) = spawned s"
proof -
  let ?rid = "''perm_'' @ randomUUID env"
  have named: "sublist ?rid (approvalMessage (toLowerCase t) ?rid)"
    unfolding approvalMessage_def sublist_def
    by (rule exI[of _ "''Tool execution requires approval for '' @ [CHR 0x27] @ toLowerCase t
                        @ [CHR 0x27] @ ''. Reply with /approve ''"],
        rule exI[of _ "'' or /deny '' @ ?rid @ ''.''"]) simp
  have fresh: "permissions (upsertPermission ?rid (in_userId input) (toLowerCase t)
                  ''execute'' ''tool'' ''pending'' s)
               = permissions s @
                 [\<lparr>permission_id = ?rid, perm_user_id = in_userId input,
                   subject = toLowerCase t, action = ''execute'', resource = ''tool'',
                   perm_status = ''pending'', perm_created_at = now s, perm_updated_at = now s\<rparr>]"
  proof -
    from assms(4) have "\<not> list_ex (\<lambda>r. permission_id r = ?rid) (permissions s)"
      unfolding list_ex_iff by (metis imageI)
    then show ?thesis
      by (simp add: upsertPermission_def upsert_def)
  qed
  show ?thesis
    using execute_unapproved[OF assms(1-3), of env] named fresh
    by (simp add: Let_def)
qed

theorem tooling_needs_approval_witness:
  "te_status (fst (executeToolingTask quiet_env git_request granted_state)) = needs_approval
   \<and> te_requestId (fst (executeToolingTask quiet_env git_request granted_state)) = Some ''perm_0b5e''
   \<and> sublist ''perm_0b5e'' (te_message (fst (executeToolingTask quiet_env git_request granted_state)))
   \<and> map permission_id (permissions (snd (executeToolingTask quiet_env git_request granted_state)))
       = [''perm_0'', ''perm_0b5e'']
   \<and> spawned (snd (executeToolingTask quiet_env git_request granted_state)) = []"
proof -
  have cmd: "extractCommandCandidate (sourceTextOf git_request) = ''git pull''"
    by code_simp
  have h1: "ok (sanitizeCommand (extractCommandCandidate (sourceTextOf git_request)))"
    by code_simp
  have h2: "tokenizeCommand (extractCommandCandidate (sourceTextOf git_request)) = ''git'' # [''pull'']"
    by code_simp
  have h3: "\<not> hasActivePermission (in_userId git_request) (toLowerCase ''git'') ''execute'' granted_state"
    by code_simp
  have h4: "''perm_'' @ randomUUID quiet_env \<notin> permission_id ` set (permissions granted_state)"
    by (simp add: quiet_env_def granted_state_def empty_state_def)
  from tooling_needs_approval[OF h1 h2 h3 h4]
  show ?thesis
    by (simp add: Let_def quiet_env_def granted_state_def empty_state_def)
qed

section \<open>Expiry of pending messages\<close>

lemma find_by_key:
  assumes "distinct (map k rows)" "row \<in> set rows"
  shows "List.find (\<lambda>r. k r = k row) rows = Some row"
  using assms
proof (induction rows)
  case Nil
  then show ?case by simp
next
  case (Cons a rows)
  then show ?case by (cases "a = row") force+
qed

lemma cleanup_clock [simp]:
  "clock (snd (cleanupExpiredPendingMessages ch s)) = clock s"
  by (simp add: cleanupExpiredPendingMessages_def purgeExpiredChannelPendingMessages_def
        incrementMetric_def Let_def now_def)

lemma cleanup_rows:
  "channel_pending_messages (snd (cleanupExpiredPendingMessages ch s))
     = filter (\<lambda>r. \<not> purgeable ch (now s) r) (channel_pending_messages s)"
  by (simp add: cleanupExpiredPendingMessages_def purgeExpiredChannelPendingMessages_def
        incrementMetric_def Let_def)

lemma cleanup_count:
  "fst (cleanupExpiredPendingMessages ch s)
     = int (length (filter (purgeable ch (now s)) (channel_pending_messages s)))"
  by (simp add: cleanupExpiredPendingMessages_def purgeExpiredChannelPendingMessages_def Let_def)

lemma cleanup_nothing:
  assumes "filter (purgeable ch (now s)) (channel_pending_messages s) = []"
  shows "cleanupExpiredPendingMessages ch s = (0, s)"
proof -
  from assms have "filter (\<lambda>r. \<not> purgeable ch (now s) r) (channel_pending_messages s)
                   = channel_pending_messages s"
    by (simp add: filter_empty_conv)
  with assms show ?thesis
    by (simp add: cleanupExpiredPendingMessages_def purgeExpiredChannelPendingMessages_def Let_def)
qed

lemma cleanup_later_nothing:
  assumes "\<forall>r \<in> set (channel_pending_messages s).
             (ch = [] \<or> pm_channel r = ch) \<and> now s < expires_at r \<longrightarrow> t2 < expires_at r"
  shows "cleanupExpiredPendingMessages ch ((snd (cleanupExpiredPendingMessages ch s))\<lparr>clock := t2\<rparr>)
           = (0, (snd (cleanupExpiredPendingMessages ch s))\<lparr>clock := t2\<rparr>)"
proof -
  let ?s2 = "(snd (cleanupExpiredPendingMessages ch s))\<lparr>clock := t2\<rparr>"
  have rows: "channel_pending_messages ?s2
                = filter (\<lambda>r. \<not> purgeable ch (now s) r) (channel_pending_messages s)"
    by (simp add: cleanup_rows)
  have "now ?s2 = t2" by (simp add: now_def)
  moreover have "\<not> purgeable ch t2 r" if "r \<in> set (channel_pending_messages ?s2)" for r
  proof -
    from that rows have r: "r \<in> set (channel_pending_messages s)" "\<not> purgeable ch (now s) r"
      by auto
    show ?thesis
    proof (cases "ch = [] \<or> pm_channel r = ch")
      case True
      with r(2) have "now s < expires_at r" by (auto simp: purgeable_def)
      with assms r(1) True have "t2 < expires_at r" by blast
      then show ?thesis by (simp add: purgeable_def)
    next
      case False
      then show ?thesis by (simp add: purgeable_def)
    qed
  qed
  ultimately have "filter (purgeable ch (now ?s2)) (channel_pending_messages ?s2) = []"
    by (simp add: filter_empty_conv)
  then show ?thesis by (rule cleanup_nothing)
qed

text \<open>
  C7 (as amended). Let a row of the pending store have \<open>expires_at\<close> before the clock,
  message ids being unique (the primary key). Then readPendingMessage returns null for
  its id, whatever channel is asked for. A cleanupExpiredPendingMessages for the row's
  channel, or for all channels, removes the row and counts it; a cleanup for any channel
  removes nothing but rows of that channel and no row that expires after the clock read
  by that call. A second cleanup for the same channel with no write in between, run when
  the clock reads \<open>t2\<close>, returns 0 and leaves the whole state as it is, provided no
  further row of that channel has expired by \<open>t2\<close>; so it does whenever the clock has
  not moved.
\<close>

theorem pending_ttl:
  assumes "row \<in> set (channel_pending_messages s)"
    and "expires_at row < now s"
    and "distinct (map message_id (channel_pending_messages s))"
  shows "fst (readPendingMessage anyChannel (message_id row) s) = None
       \<and> (ch = [] \<or> ch = pm_channel row
            \<longrightarrow> row \<notin> set (channel_pending_messages (snd (cleanupExpiredPendingMessages ch s)))
              \<and> 0 < fst (cleanupExpiredPendingMessages ch s))
       \<and> channel_pending_messages (snd (cleanupExpiredPendingMessages ch s))
           = filter (\<lambda>r. \<not> (expires_at r \<le> now s \<and> (ch = [] \<or> pm_channel r = ch)))
               (channel_pending_messages s)
       \<and> cleanupExpiredPendingMessages ch (snd (cleanupExpiredPendingMessages ch s))
           = (0, snd (cleanupExpiredPendingMessages ch s))
       \<and> ((\<forall>r \<in> set (channel_pending_messages s).
               (ch = [] \<or> pm_channel r = ch) \<and> now s < expires_at r \<longrightarrow> t2 < expires_at r)
            \<longrightarrow> cleanupExpiredPendingMessages ch ((snd (cleanupExpiredPendingMessages ch s))\<lparr>clock := t2\<rparr>)
                  = (0, (snd (cleanupExpiredPendingMessages ch s))\<lparr>clock := t2\<rparr>))"
proof -
  have found: "getChannelPendingMessage (message_id row) s = Some row"
    unfolding getChannelPendingMessage_def using assms(3,1) by (rule find_by_key)
  have read: "fst (readPendingMessage anyChannel (message_id row) s) = None"
    using assms(2) by (simp add: readPendingMessage_def found)
  have purge: "row \<notin> set (channel_pending_messages (snd (cleanupExpiredPendingMessages ch s)))
              \<and> 0 < fst (cleanupExpiredPendingMessages ch s)"
    if "ch = [] \<or> ch = pm_channel row"
  proof -
    from that assms(2) have p: "purgeable ch (now s) row"
      by (auto simp: purgeable_def)
    with assms(1) have "row \<in> set (filter (purgeable ch (now s)) (channel_pending_messages s))"
      by simp
    then have "0 < length (filter (purgeable ch (now s)) (channel_pending_messages s))"
      by (metis length_pos_if_in_set)
    with p show ?thesis
      by (simp add: cleanup_rows cleanup_count)
  qed
  have kept: "channel_pending_messages (snd (cleanupExpiredPendingMessages ch s))
           = filter (\<lambda>r. \<not> (expires_at r \<le> now s \<and> (ch = [] \<or> pm_channel r = ch)))
               (channel_pending_messages s)"
    by (simp add: cleanup_rows purgeable_def)
  let ?s1 = "snd (cleanupExpiredPendingMessages ch s)"
  have "now ?s1 = now s" by (simp add: now_def)
  then have "filter (purgeable ch (now ?s1)) (channel_pending_messages ?s1) = []"
    by (simp add: cleanup_rows filter_empty_conv)
  then have again: "cleanupExpiredPendingMessages ch ?s1 = (0, ?s1)"
    by (rule cleanup_nothing)
  have later: "cleanupExpiredPendingMessages ch (?s1\<lparr>clock := t2\<rparr>) = (0, ?s1\<lparr>clock := t2\<rparr>)"
    if "\<forall>r \<in> set (channel_pending_messages s).
          (ch = [] \<or> pm_channel r = ch) \<and> now s < expires_at r \<longrightarrow> t2 < expires_at r"
    using that by (rule cleanup_later_nothing)
  from read purge kept again later show ?thesis by blast
qed

theorem pending_ttl_witness:
  "fst (readPendingMessage ''whatsapp'' ''m_old'' pending_state) = None
   \<and> map message_id (channel_pending_messages (snd (cleanupExpiredPendingMessages ''whatsapp'' pending_state)))
       = [''m_new'']
   \<and> fst (cleanupExpiredPendingMessages ''whatsapp'' pending_state) = 1
   \<and> cleanupExpiredPendingMessages ''whatsapp'' (snd (cleanupExpiredPendingMessages ''whatsapp'' pending_state))
       = (0, snd (cleanupExpiredPendingMessages ''whatsapp'' pending_state))
   \<and> cleanupExpiredPendingMessages ''whatsapp''
        ((snd (cleanupExpiredPendingMessages ''whatsapp'' pending_state))\<lparr>clock := 4999\<rparr>)
       = (0, (snd (cleanupExpiredPendingMessages ''whatsapp'' pending_state))\<lparr>clock := 4999\<rparr>)"
proof -
  have h1: "mkPending ''m_old'' 700 \<in> set (channel_pending_messages pending_state)"
    by (simp add: pending_state_def empty_state_def)
  have h2: "expires_at (mkPending ''m_old'' 700) < now pending_state"
    by (simp add: pending_state_def empty_state_def mkPending_def now_def)
  have h3: "distinct (map message_id (channel_pending_messages pending_state))"
    by (simp add: pending_state_def empty_state_def mkPending_def)
  have h4: "\<forall>r \<in> set (channel_pending_messages pending_state).
              (''whatsapp'' = [] \<or> pm_channel r = ''whatsapp'') \<and> now pending_state < expires_at r
                \<longrightarrow> 4999 < expires_at r"
    by (simp add: pending_state_def empty_state_def mkPending_def now_def)
  have id: "message_id (mkPending ''m_old'' 700) = ''m_old''"
    by (simp add: mkPending_def)
  have ch: "pm_channel (mkPending ''m_old'' 700) = ''whatsapp''"
    by (simp add: mkPending_def)
  have rows: "map message_id (channel_pending_messages
                 (snd (cleanupExpiredPendingMessages ''whatsapp'' pending_state))) = [''m_new'']"
    by (simp add: cleanup_rows pending_state_def empty_state_def mkPending_def purgeable_def now_def)
  have cnt: "fst (cleanupExpiredPendingMessages ''whatsapp'' pending_state) = 1"
    by (simp add: cleanup_count pending_state_def empty_state_def mkPending_def purgeable_def now_def)
  from pending_ttl[OF h1 h2 h3, of "''whatsapp''" "''whatsapp''" 4999] h4 rows cnt
  show ?thesis by (simp add: id ch)
qed

text \<open>
  The pending store of \<open>pending_state\<close> holds two rows of channel whatsapp, the first
  expired at 700 with the clock at 1000, the second expiring at 5000. A cleanup for
  channel telegram removes nothing and leaves the expired row in the table. And after a
  cleanup for whatsapp has removed the expired row, a second cleanup with no write in
  between, run when the clock reads 6000, removes the other row and returns 1.
\<close>

theorem pending_cleanup_counterexample:
  "expires_at (mkPending ''m_old'' 700) < now pending_state
   \<and> cleanupExpiredPendingMessages ''telegram'' pending_state = (0, pending_state)
   \<and> mkPending ''m_old'' 700 \<in> set (channel_pending_messages pending_state)
   \<and> fst (cleanupExpiredPendingMessages ''whatsapp'' pending_state) = 1
   \<and> fst (cleanupExpiredPendingMessages ''whatsapp''
            ((snd (cleanupExpiredPendingMessages ''whatsapp'' pending_state))\<lparr>clock := 6000\<rparr>)) = 1
   \<and> channel_pending_messages (snd (cleanupExpiredPendingMessages ''whatsapp''
            ((snd (cleanupExpiredPendingMessages ''whatsapp'' pending_state))\<lparr>clock := 6000\<rparr>))) = []"
proof -
  have a: "cleanupExpiredPendingMessages ''telegram'' pending_state = (0, pending_state)"
    by (rule cleanup_nothing)
       (simp add: pending_state_def empty_state_def mkPending_def purgeable_def now_def)
  have b: "fst (cleanupExpiredPendingMessages ''whatsapp'' pending_state) = 1"
    by (simp add: cleanup_count pending_state_def empty_state_def mkPending_def purgeable_def now_def)
  have c: "fst (cleanupExpiredPendingMessages ''whatsapp''
            ((snd (cleanupExpiredPendingMessages ''whatsapp'' pending_state))\<lparr>clock := 6000\<rparr>)) = 1"
    by (simp add: cleanup_count cleanup_rows pending_state_def empty_state_def mkPending_def
          purgeable_def now_def)
  have d: "channel_pending_messages (snd (cleanupExpiredPendingMessages ''whatsapp''
            ((snd (cleanupExpiredPendingMessages ''whatsapp'' pending_state))\<lparr>clock := 6000\<rparr>))) = []"
    by (simp add: cleanup_count cleanup_rows pending_state_def empty_state_def mkPending_def
          purgeable_def now_def)
  have e: "expires_at (mkPending ''m_old'' 700) < now pending_state"
    by (simp add: pending_state_def empty_state_def mkPending_def now_def)
  have f: "mkPending ''m_old'' 700 \<in> set (channel_pending_messages pending_state)"
    by (simp add: pending_state_def empty_state_def)
  from a b c d e f show ?thesis by simp
qed

section \<open>Long-response spill\<close>

text \<open>
  C8. For a response longer than 4000 characters the envelope's message is the first
  4000 characters followed by a 36-character note, so at most 4040 characters long, and
  the envelope's files end with the path of a file \<open>response_<now>.md\<close> in the files
  directory that was written in this call with the whole response.
\<close>

theorem long_response_spill:
  assumes "length response > 4000"
  shows "let out = handleLongResponse FILES_DIR dateNow response existingFiles d;
             envelope = responseEnvelope (fst out);
             filePath = pathJoin FILES_DIR (''response_'' @ showNat dateNow @ ''.md'')
         in length (rd_message envelope) = 4036
          \<and> length (rd_message envelope) \<le> 4000 + 40
          \<and> prefix (take 4000 response) (rd_message envelope)
          \<and> rd_files envelope = Some (existingFiles @ [filePath])
          \<and> suffix ''.md'' filePath
          \<and> files_on_disk (snd out) filePath = Some response"
proof -
  have "suffix ''.md'' (pathJoin FILES_DIR (''response_'' @ showNat dateNow @ ''.md''))"
    unfolding pathJoin_def suffix_def
    by (rule exI[of _ "FILES_DIR @ ''/'' @ ''response_'' @ showNat dateNow"]) simp
  then show ?thesis
    using assms
    by (simp add: handleLongResponse_def LONG_RESPONSE_THRESHOLD_def Let_def responseEnvelope_def
          writeFileSync_def logLine_def)
qed

theorem long_response_spill_witness:
  "length (rd_message (responseEnvelope (fst (handleLongResponse ''/home/ann/.tinyagi/files'' 1234
             (replicate 5000 CHR ''a'') [] empty_disk)))) = 4036
   \<and> rd_files (responseEnvelope (fst (handleLongResponse ''/home/ann/.tinyagi/files'' 1234
             (replicate 5000 CHR ''a'') [] empty_disk)))
       = Some [''/home/ann/.tinyagi/files/response_1234.md'']
   \<and> files_on_disk (snd (handleLongResponse ''/home/ann/.tinyagi/files'' 1234
             (replicate 5000 CHR ''a'') [] empty_disk)) ''/home/ann/.tinyagi/files/response_1234.md''
       = Some (replicate 5000 CHR ''a'')"
proof -
  have h: "length (replicate 5000 CHR ''a'') > 4000" by simp
  have name: "pathJoin ''/home/ann/.tinyagi/files'' (''response_'' @ showNat 1234 @ ''.md'')
              = ''/home/ann/.tinyagi/files/response_1234.md''"
    by (simp add: pathJoin_def showNat.simps digitChar_def)
  from long_response_spill[OF h, of "''/home/ann/.tinyagi/files''" 1234 "[]" empty_disk]
  show ?thesis
    unfolding Let_def name by simp
qed

section \<open>The verifier fails open\<close>

lemma outcome_llmVerdict [simp]: "outcome (llmVerdict ctx oc fs acts refs) = oc"
  by (simp add: llmVerdict_def)

lemma outcomeOf_empty [simp]: "outcomeOf [] = pass"
  by (simp add: outcomeOf_def)

lemma verify_past_fast_paths:
  assumes "\<not> tooShort candidate" "\<not> errorPlaceholder candidate"
  shows "verifyCandidate env ctx candidate =
     (case verifyWithModel env ctx candidate (extractEvidenceRefs candidate) of
        Inr v \<Rightarrow> v
      | Inl (Error msg) \<Rightarrow>
          llmVerdict ctx pass [''Verifier error: '' @ msg @ ''; defaulting to pass.''] []
            (extractEvidenceRefs candidate))"
  using assms by (simp add: verifyCandidate_def Let_def)

lemma verify_exception_pass:
  assumes "\<not> tooShort candidate" "\<not> errorPlaceholder candidate"
    and "verifyWithModel env ctx candidate (extractEvidenceRefs candidate) = Inl e"
  shows "outcome (verifyCandidate env ctx candidate) = pass"
  using assms(3) by (cases e) (simp add: verify_past_fast_paths[OF assms(1,2)])

lemma verify_not_object_pass:
  assumes "runOneShotPrompt env (verifierPrompt ctx candidate) ''claude-opus-4-6'' = Inr raw"
    and "\<forall>kvs. parseVerifierOutput env (trimJs raw) \<noteq> Inr (Some (JObj kvs))"
    and "verifyWithModel env ctx candidate refs = Inr v"
  shows "outcome v = pass"
proof (cases "parseVerifierOutput env (trimJs raw)")
  case (Inl e)
  with assms(1,3) show ?thesis by (simp add: verifyWithModel_def)
next
  case (Inr parsed)
  show ?thesis
  proof (cases parsed)
    case None
    with Inr assms(1,3) show ?thesis by (auto simp: verifyWithModel_def)
  next
    case (Some p)
    with Inr assms(2) have notobj: "\<forall>kvs. p \<noteq> JObj kvs" by simp
    show ?thesis
    proof (cases "\<not> truthy p \<or> \<not> typeofObject p")
      case True
      with Inr Some assms(1,3) show ?thesis by (auto simp: verifyWithModel_def)
    next
      case False
      with notobj obtain xs where "p = JArr xs" by (cases p) auto
      with Inr Some assms(1,3) show ?thesis
        by (auto simp: verifyWithModel_def stringArray_def split: sum.splits)
    qed
  qed
qed

text \<open>
  C3. For a candidate that reaches the model-backed verifier (it is neither too short
  nor an error placeholder, the two cases answered before the model is asked):
  when the model's answer does not yield a JSON object, neither as a whole nor from a
  fenced block or a brace-delimited span, the verdict's outcome is pass; and when the
  verification throws, in the model call, in JSON.parse or in a conversion, the
  verdict's outcome is pass.
\<close>

theorem verifier_fail_open:
  assumes "\<not> tooShort candidate" and "\<not> errorPlaceholder candidate"
  shows "(\<forall>raw. runOneShotPrompt env (verifierPrompt ctx candidate) ''claude-opus-4-6'' = Inr raw
              \<and> (\<forall>kvs. parseVerifierOutput env (trimJs raw) \<noteq> Inr (Some (JObj kvs)))
            \<longrightarrow> outcome (verifyCandidate env ctx candidate) = pass)
       \<and> (\<forall>e. runOneShotPrompt env (verifierPrompt ctx candidate) ''claude-opus-4-6'' = Inl e
            \<longrightarrow> outcome (verifyCandidate env ctx candidate) = pass)
       \<and> (\<forall>e. verifyWithModel env ctx candidate (extractEvidenceRefs candidate) = Inl e
            \<longrightarrow> outcome (verifyCandidate env ctx candidate) = pass)"
proof (intro conjI allI impI)
  fix raw
  assume a: "runOneShotPrompt env (verifierPrompt ctx candidate) ''claude-opus-4-6'' = Inr raw
              \<and> (\<forall>kvs. parseVerifierOutput env (trimJs raw) \<noteq> Inr (Some (JObj kvs)))"
  show "outcome (verifyCandidate env ctx candidate) = pass"
  proof (cases "verifyWithModel env ctx candidate (extractEvidenceRefs candidate)")
    case (Inl e)
    with assms show ?thesis by (rule verify_exception_pass)
  next
    case (Inr v)
    with a have "outcome v = pass"
      using verify_not_object_pass by blast
    with Inr show ?thesis
      by (simp add: verify_past_fast_paths[OF assms])
  qed
next
  fix e
  assume "runOneShotPrompt env (verifierPrompt ctx candidate) ''claude-opus-4-6'' = Inl e"
  then have "verifyWithModel env ctx candidate (extractEvidenceRefs candidate) = Inl e"
    by (simp add: verifyWithModel_def)
  with assms show "outcome (verifyCandidate env ctx candidate) = pass"
    by (rule verify_exception_pass)
next
  fix e
  assume "verifyWithModel env ctx candidate (extractEvidenceRefs candidate) = Inl e"
  with assms show "outcome (verifyCandidate env ctx candidate) = pass"
    by (rule verify_exception_pass)
qed

theorem verifier_fail_open_witness:
  "outcome (verifyCandidate prose_env demo_ctx ''Paris is the capital of France.'') = pass
   \<and> outcome (verifyCandidate down_env demo_ctx ''Paris is the capital of France.'') = pass"
proof -
  let ?c = "''Paris is the capital of France.''"
  have h1: "\<not> tooShort ?c" by code_simp
  have h2: "\<not> errorPlaceholder ?c" by code_simp
  have raw: "runOneShotPrompt prose_env (verifierPrompt demo_ctx ?c) ''claude-opus-4-6''
               = Inr ''Looks fine to me.''"
    by (simp add: prose_env_def)
  have parsed: "parseVerifierOutput prose_env (trimJs ''Looks fine to me.'') = Inr None"
    by code_simp
  have down: "runOneShotPrompt down_env (verifierPrompt demo_ctx ?c) ''claude-opus-4-6''
               = Inl (Error ''spawn claude ENOENT'')"
    by (simp add: down_env_def)
  from verifier_fail_open[OF h1 h2, of prose_env demo_ctx] raw parsed
  have a: "outcome (verifyCandidate prose_env demo_ctx ?c) = pass"
    by simp
  from verifier_fail_open[OF h1 h2, of down_env demo_ctx] down
  have b: "outcome (verifyCandidate down_env demo_ctx ?c) = pass"
    by blast
  from a b show ?thesis by simp
qed

section \<open>Memory records: unique keys, last writer wins\<close>

lemma upsert_keys:
  assumes "\<And>old. k (merge old new) = k old"
  shows "map k (upsert k merge new rows)
           = (if k new \<in> set (map k rows) then map k rows else map k rows @ [k new])"
proof -
  have "map k (map (\<lambda>r. if k r = k new then merge r new else r) rows) = map k rows"
    by (induction rows) (auto simp: assms)
  then show ?thesis
    by (auto simp: upsert_def list_ex_iff intro: rev_image_eqI)
qed

lemma upsert_distinct:
  assumes "\<And>old. k (merge old new) = k old" "distinct (map k rows)"
  shows "distinct (map k (upsert k merge new rows))"
  using assms(2) by (simp add: upsert_keys[of k merge new, OF assms(1)])

lemma upsert_cases:
  assumes "r \<in> set (upsert k merge new rows)"
  shows "(r \<in> set rows \<and> k r \<noteq> k new) \<or> (r = new \<and> k new \<notin> k ` set rows)
         \<or> (\<exists>old \<in> set rows. k old = k new \<and> r = merge old new)"
  using assms by (auto simp: upsert_def list_ex_iff split: if_splits)

lemma upsert_written:
  "\<exists>r \<in> set (upsert k merge new rows). r = new \<or> (\<exists>old \<in> set rows. k old = k new \<and> r = merge old new)"
  by (auto simp: upsert_def list_ex_iff)

lemma upsert_others:
  assumes "r \<in> set rows" "k r \<noteq> k new"
  shows "r \<in> set (upsert k merge new rows)"
  using assms by (auto simp: upsert_def list_ex_iff)

lemma upsertMemoryRecord_written:
  "storedAs (mi_recordId input) (mi_value input) (mi_confidence input) (upsertMemoryRecord input s)"
proof -
  let ?merge = "\<lambda>old new. old\<lparr>val := val new, confidence := confidence new,
                            source_run_id := source_run_id new,
                            mem_updated_at := mem_updated_at new\<rparr>"
  let ?new = "\<lparr>record_id = mi_recordId input, user_id = mi_userId input,
             category = mi_category input, key = mi_key input, val = mi_value input,
             confidence = mi_confidence input, source_run_id = coalesce (mi_sourceRunId input),
             mem_created_at = now s, mem_updated_at = now s\<rparr>"
  from upsert_written[of record_id ?merge ?new "memory_records s"]
  obtain r where r: "r \<in> set (upsert record_id ?merge ?new (memory_records s))"
    and c: "r = ?new \<or> (\<exists>old \<in> set (memory_records s). record_id old = record_id ?new \<and> r = ?merge old ?new)"
    by blast
  from c have "record_id r = mi_recordId input \<and> val r = mi_value input
                \<and> confidence r = mi_confidence input"
    by auto
  with r show ?thesis
    unfolding storedAs_def list_ex_iff upsertMemoryRecord_def by auto
qed

lemma upsertMemoryRecord_others:
  assumes "storedAs rid v c s" "mi_recordId input \<noteq> rid"
  shows "storedAs rid v c (upsertMemoryRecord input s)"
proof -
  from assms(1) obtain r where r: "r \<in> set (memory_records s)" "record_id r = rid"
    "val r = v" "confidence r = c"
    unfolding storedAs_def list_ex_iff by blast
  with assms(2) have "r \<in> set (memory_records (upsertMemoryRecord input s))"
    unfolding upsertMemoryRecord_def by (simp add: upsert_others)
  with r show ?thesis unfolding storedAs_def list_ex_iff by blast
qed

lemma upsertMemoryRecord_keyed:
  assumes "memoryKeyed sha1hex s"
    and "mi_recordId input = deterministicMemoryId sha1hex (mi_userId input) (mi_category input) (mi_key input)"
  shows "memoryKeyed sha1hex (upsertMemoryRecord input s)"
proof -
  let ?merge = "\<lambda>old new. old\<lparr>val := val new, confidence := confidence new,
                            source_run_id := source_run_id new,
                            mem_updated_at := mem_updated_at new\<rparr>"
  let ?new = "\<lparr>record_id = mi_recordId input, user_id = mi_userId input,
             category = mi_category input, key = mi_key input, val = mi_value input,
             confidence = mi_confidence input, source_run_id = coalesce (mi_sourceRunId input),
             mem_created_at = now s, mem_updated_at = now s\<rparr>"
  let ?rows' = "upsert record_id ?merge ?new (memory_records s)"
  have rows: "memory_records (upsertMemoryRecord input s) = ?rows'"
    by (simp add: upsertMemoryRecord_def)
  from assms(1) have d: "distinct (map record_id (memory_records s))"
    and k: "\<And>r. r \<in> set (memory_records s) \<Longrightarrow>
              record_id r = deterministicMemoryId sha1hex (user_id r) (category r) (key r)"
    by (auto simp: memoryKeyed_def list_all_iff)
  have d': "distinct (map record_id ?rows')"
    by (rule upsert_distinct) (simp_all add: d)
  have k': "record_id r = deterministicMemoryId sha1hex (user_id r) (category r) (key r)"
    if "r \<in> set ?rows'" for r
    using upsert_cases[OF that] k assms(2) by auto
  from d' k' show ?thesis
    unfolding memoryKeyed_def list_all_iff rows by blast
qed

lemma fold_upsert_keyed:
  assumes "memoryKeyed sha1hex s"
  shows "memoryKeyed sha1hex
           (fold (\<lambda>row st. upsertMemoryRecord (stableRow sha1hex userId rid row) st) rows s)"
  using assms
proof (induction rows arbitrary: s)
  case Nil
  then show ?case by simp
next
  case (Cons a rows)
  have "memoryKeyed sha1hex (upsertMemoryRecord (stableRow sha1hex userId rid a) s)"
    by (rule upsertMemoryRecord_keyed[OF Cons.prems]) (simp add: stableRow_def)
  then show ?case
    by (simp add: Cons.IH)
qed

lemma fold_upsert_others:
  assumes "storedAs i v c s"
    and "\<forall>x \<in> set rows. deterministicMemoryId sha1hex userId (mi_category x) (mi_key x) \<noteq> i"
  shows "storedAs i v c
           (fold (\<lambda>row st. upsertMemoryRecord (stableRow sha1hex userId rid row) st) rows s)"
  using assms
proof (induction rows arbitrary: s)
  case Nil
  then show ?case by simp
next
  case (Cons a rows)
  have "storedAs i v c (upsertMemoryRecord (stableRow sha1hex userId rid a) s)"
    by (rule upsertMemoryRecord_others[OF Cons.prems(1)]) (use Cons.prems(2) in \<open>simp add: stableRow_def\<close>)
  with Cons.prems(2) show ?case
    by (simp add: Cons.IH)
qed

lemma fold_upsert_last_wins:
  assumes "i < length rows"
    and "\<forall>j < length rows. i < j \<longrightarrow>
           deterministicMemoryId sha1hex userId (mi_category (rows ! j)) (mi_key (rows ! j))
             \<noteq> deterministicMemoryId sha1hex userId (mi_category (rows ! i)) (mi_key (rows ! i))"
  shows "storedAs (deterministicMemoryId sha1hex userId (mi_category (rows ! i)) (mi_key (rows ! i)))
           (mi_value (rows ! i)) (mi_confidence (rows ! i))
           (fold (\<lambda>row st. upsertMemoryRecord (stableRow sha1hex userId rid row) st) rows s)"
  using assms
proof (induction rows arbitrary: s i)
  case Nil
  then show ?case by simp
next
  case (Cons a rows)
  show ?case
  proof (cases i)
    case 0
    let ?id = "deterministicMemoryId sha1hex userId (mi_category a) (mi_key a)"
    have w: "storedAs ?id (mi_value a) (mi_confidence a)
               (upsertMemoryRecord (stableRow sha1hex userId rid a) s)"
      using upsertMemoryRecord_written[of "stableRow sha1hex userId rid a" s]
      by (simp add: stableRow_def)
    have later: "\<forall>x \<in> set rows. deterministicMemoryId sha1hex userId (mi_category x) (mi_key x) \<noteq> ?id"
    proof
      fix x assume "x \<in> set rows"
      then obtain j where j: "j < length rows" "rows ! j = x"
        by (auto simp: in_set_conv_nth)
      with Cons.prems(2)[rule_format, of "Suc j"] 0
      show "deterministicMemoryId sha1hex userId (mi_category x) (mi_key x) \<noteq> ?id"
        by simp
    qed
    from fold_upsert_others[OF w later] 0 show ?thesis by simp
  next
    case (Suc n)
    with Cons.prems(1) have n: "n < length rows" by simp
    have later: "\<forall>j < length rows. n < j \<longrightarrow>
           deterministicMemoryId sha1hex userId (mi_category (rows ! j)) (mi_key (rows ! j))
             \<noteq> deterministicMemoryId sha1hex userId (mi_category (rows ! n)) (mi_key (rows ! n))"
    proof (intro allI impI)
      fix j assume "j < length rows" "n < j"
      with Cons.prems(2)[rule_format, of "Suc j"] Suc
      show "deterministicMemoryId sha1hex userId (mi_category (rows ! j)) (mi_key (rows ! j))
             \<noteq> deterministicMemoryId sha1hex userId (mi_category (rows ! n)) (mi_key (rows ! n))"
        by simp
    qed
    from Cons.IH[OF n later] Suc show ?thesis by simp
  qed
qed

lemma keyed_unique:
  assumes "memoryKeyed sha1hex s"
    and "r1 \<in> set (memory_records s)" "r2 \<in> set (memory_records s)"
    and "user_id r1 = user_id r2" "category r1 = category r2" "key r1 = key r2"
  shows "r1 = r2"
proof -
  from assms have "record_id r1 = record_id r2"
    by (auto simp: memoryKeyed_def list_all_iff)
  moreover from assms(1) have "inj_on record_id (set (memory_records s))"
    by (simp add: memoryKeyed_def distinct_map)
  ultimately show ?thesis
    using assms(2,3) by (meson inj_onD)
qed

lemma first_occurrences_snoc:
  "rev (remdups (rev (xs @ [k]))) =
     (if k \<in> set xs then rev (remdups (rev xs)) else rev (remdups (rev xs)) @ [k])"
  by simp

lemma dedupStep_keys:
  "map fst (dedupStep acc row) =
     (if dedupKey row \<in> fst ` set acc then map fst acc else map fst acc @ [dedupKey row])"
proof (cases "map_of acc (dedupKey row)")
  case None
  then have "dedupKey row \<notin> fst ` set acc"
    by (simp add: map_of_eq_None_iff)
  with None show ?thesis
    by (simp add: dedupStep_def)
next
  case (Some existing)
  then have "dedupKey row \<in> fst ` set acc"
    by (metis domI dom_map_of_conv_image_fst)
  moreover have "map fst (map (\<lambda>e. if fst e = dedupKey row then (fst e, row) else e) acc) = map fst acc"
    by (induction acc) auto
  ultimately show ?thesis
    using Some by (simp add: dedupStep_def)
qed

text \<open>
  What the \<open>Map\<close> holds after the rows \<open>seen\<close>: its keys are the keys of the rows seen, in
  order of first appearance, and the entry of a key is the first row seen with the
  highest confidence among the rows of that key.
\<close>

lemma dedup_entries:
  "map fst (foldl dedupStep [] seen) = rev (remdups (rev (map dedupKey seen)))
   \<and> (\<forall>e \<in> set (foldl dedupStep [] seen).
        fst e = dedupKey (snd e)
        \<and> (\<exists>pre post. seen = pre @ snd e # post
              \<and> (\<forall>x \<in> set pre. dedupKey x = fst e \<longrightarrow> mi_confidence x < mi_confidence (snd e))
              \<and> (\<forall>x \<in> set post. dedupKey x = fst e \<longrightarrow> mi_confidence x \<le> mi_confidence (snd e))))"
proof (induction seen rule: rev_induct)
  case Nil
  then show ?case by simp
next
  case (snoc row seen)
  define acc where "acc = foldl dedupStep [] seen"
  define k where "k = dedupKey row"
  from snoc have keys: "map fst acc = rev (remdups (rev (map dedupKey seen)))"
    and entry: "\<And>e. e \<in> set acc \<Longrightarrow> fst e = dedupKey (snd e)
        \<and> (\<exists>pre post. seen = pre @ snd e # post
              \<and> (\<forall>x \<in> set pre. dedupKey x = fst e \<longrightarrow> mi_confidence x < mi_confidence (snd e))
              \<and> (\<forall>x \<in> set post. dedupKey x = fst e \<longrightarrow> mi_confidence x \<le> mi_confidence (snd e)))"
    unfolding acc_def by blast+
  have keyset: "fst ` set acc = dedupKey ` set seen"
  proof -
    have "set (map fst acc) = set (map dedupKey seen)"
      unfolding keys by simp
    then show ?thesis by simp
  qed
  have dist: "distinct (map fst acc)"
    unfolding keys by simp
  have step: "foldl dedupStep [] (seen @ [row]) = dedupStep acc row"
    by (simp add: acc_def)
  have keys': "map fst (dedupStep acc row) = rev (remdups (rev (map dedupKey (seen @ [row]))))"
    unfolding dedupStep_keys keyset using keys by simp
  have entry': "fst e = dedupKey (snd e)
        \<and> (\<exists>pre post. seen @ [row] = pre @ snd e # post
              \<and> (\<forall>x \<in> set pre. dedupKey x = fst e \<longrightarrow> mi_confidence x < mi_confidence (snd e))
              \<and> (\<forall>x \<in> set post. dedupKey x = fst e \<longrightarrow> mi_confidence x \<le> mi_confidence (snd e)))"
    if e: "e \<in> set (dedupStep acc row)" for e
  proof -
    have fresh: ?thesis if "e = (k, row)" "\<forall>x \<in> set seen. dedupKey x = k \<longrightarrow> mi_confidence x < mi_confidence row"
    proof -
      have "seen @ [row] = seen @ snd e # []" using that by simp
      moreover have "\<forall>x \<in> set seen. dedupKey x = fst e \<longrightarrow> mi_confidence x < mi_confidence (snd e)"
        using that by simp
      ultimately show ?thesis using that(1) k_def by fastforce
    qed
    have old: ?thesis if "e \<in> set acc" "fst e = k \<longrightarrow> mi_confidence row \<le> mi_confidence (snd e)"
    proof -
      from entry[OF that(1)] obtain pre post where pp: "fst e = dedupKey (snd e)"
        "seen = pre @ snd e # post"
        "\<forall>x \<in> set pre. dedupKey x = fst e \<longrightarrow> mi_confidence x < mi_confidence (snd e)"
        "\<forall>x \<in> set post. dedupKey x = fst e \<longrightarrow> mi_confidence x \<le> mi_confidence (snd e)"
        by blast
      have "seen @ [row] = pre @ snd e # (post @ [row])" using pp(2) by simp
      moreover have "\<forall>x \<in> set (post @ [row]). dedupKey x = fst e \<longrightarrow> mi_confidence x \<le> mi_confidence (snd e)"
        using pp(4) that(2) by (auto simp: k_def)
      ultimately show ?thesis using pp(1,3) by blast
    qed
    show ?thesis
    proof (cases "map_of acc k")
      case None
      then have nk: "k \<notin> fst ` set acc" by (simp add: map_of_eq_None_iff)
      from None e have "e \<in> set acc \<or> e = (k, row)"
        by (auto simp: dedupStep_def k_def)
      then show ?thesis
      proof
        assume "e \<in> set acc"
        with nk have "fst e \<noteq> k" by auto
        with \<open>e \<in> set acc\<close> show ?thesis by (intro old) simp_all
      next
        assume "e = (k, row)"
        moreover from nk keyset have "\<forall>x \<in> set seen. dedupKey x \<noteq> k" by auto
        ultimately show ?thesis by (intro fresh) simp_all
      qed
    next
      case (Some existing)
      then have ex: "(k, existing) \<in> set acc" by (rule map_of_SomeD)
      have only: "snd e' = existing" if "e' \<in> set acc" "fst e' = k" for e'
        using that ex dist by (metis eq_key_imp_eq_value prod.collapse)
      show ?thesis
      proof (cases "mi_confidence row > mi_confidence existing")
        case True
        with Some e have "e \<in> (\<lambda>e. if fst e = k then (fst e, row) else e) ` set acc"
          by (simp add: dedupStep_def k_def)
        then obtain e0 where e0: "e0 \<in> set acc" "e = (if fst e0 = k then (fst e0, row) else e0)"
          by blast
        show ?thesis
        proof (cases "fst e0 = k")
          case k0: True
          with e0 have ek: "e = (k, row)" by simp
          have "mi_confidence x < mi_confidence row" if "x \<in> set seen" "dedupKey x = k" for x
          proof -
            from entry[OF ex] obtain pre post where pp:
              "seen = pre @ existing # post"
              "\<forall>x \<in> set pre. dedupKey x = k \<longrightarrow> mi_confidence x < mi_confidence existing"
              "\<forall>x \<in> set post. dedupKey x = k \<longrightarrow> mi_confidence x \<le> mi_confidence existing"
              by auto
            from that pp have "mi_confidence x \<le> mi_confidence existing"
              by (auto simp: less_imp_le)
            with True show ?thesis by simp
          qed
          with ek show ?thesis by (intro fresh) simp_all
        next
          case False
          with e0 show ?thesis by (intro old) simp_all
        qed
      next
        case False
        with Some e have "e \<in> set acc" by (simp add: dedupStep_def k_def)
        moreover have "mi_confidence row \<le> mi_confidence (snd e)" if "fst e = k"
          using only[OF \<open>e \<in> set acc\<close> that] False by simp
        ultimately show ?thesis by (intro old) simp_all
      qed
    qed
  qed
  from keys' entry' show ?case
    unfolding step by blast
qed

lemma dedupRows_keys:
  "map dedupKey (dedupRows rawRows) = rev (remdups (rev (map dedupKey rawRows)))"
proof -
  have "map (\<lambda>e. dedupKey (snd e)) (foldl dedupStep [] rawRows) = map fst (foldl dedupStep [] rawRows)"
    using dedup_entries[of rawRows] by (intro map_cong) simp_all
  then show ?thesis
    using dedup_entries[of rawRows] by (simp add: dedupRows_def comp_def)
qed

lemma dedupRows_best:
  assumes "y \<in> set (dedupRows rawRows)"
  shows "\<exists>pre post. rawRows = pre @ y # post
           \<and> (\<forall>x \<in> set pre. dedupKey x = dedupKey y \<longrightarrow> mi_confidence x < mi_confidence y)
           \<and> (\<forall>x \<in> set post. dedupKey x = dedupKey y \<longrightarrow> mi_confidence x \<le> mi_confidence y)"
proof -
  from assms obtain e where e: "e \<in> set (foldl dedupStep [] rawRows)" "y = snd e"
    by (auto simp: dedupRows_def)
  with dedup_entries[of rawRows] show ?thesis by fastforce
qed

text \<open>
  C6 (as amended). Record ids are a function of user, category and key. On a store whose
  ids are unique and deterministic, ingestMemorySignals keeps them so, hence no two
  records share (user, category, key); and for every row it writes after which the same
  ingest writes no other row under the same id, the store afterwards holds that row's
  value and confidence under its id, whatever was stored before: the newer write wins,
  with or without a higher confidence. Confidence decides only which rows one ingest
  writes: of any list of extracted rows, the rows written are one for each distinct
  (category, key, lower-cased value), in order of first appearance, and each is the
  first row of the highest confidence among the rows that share its triple.
\<close>

theorem memory_newer_ingest_wins:
  assumes "memoryKeyed sha1hex s"
  shows "let out = ingestMemorySignals sha1hex userId rid objectiveText responseText s;
             rows = dedupRows (buildMemoryRowsFromText objectiveText
                                 @ buildMemoryRowsFromText responseText);
             idOf = (\<lambda>x. deterministicMemoryId sha1hex userId (mi_category x) (mi_key x))
         in memoryKeyed sha1hex (snd out)
          \<and> (\<forall>r1 \<in> set (memory_records (snd out)). \<forall>r2 \<in> set (memory_records (snd out)).
                user_id r1 = user_id r2 \<and> category r1 = category r2 \<and> key r1 = key r2
                \<longrightarrow> r1 = r2)
          \<and> fst out = length rows
          \<and> (\<forall>i < length rows.
                (\<forall>j < length rows. i < j \<longrightarrow> idOf (rows ! j) \<noteq> idOf (rows ! i))
                \<longrightarrow> storedAs (idOf (rows ! i)) (mi_value (rows ! i)) (mi_confidence (rows ! i))
                      (snd out))
          \<and> map dedupKey (dedupRows rawRows) = rev (remdups (rev (map dedupKey rawRows)))
          \<and> (\<forall>y \<in> set (dedupRows rawRows). \<exists>pre post. rawRows = pre @ y # post
                \<and> (\<forall>x \<in> set pre. dedupKey x = dedupKey y \<longrightarrow> mi_confidence x < mi_confidence y)
                \<and> (\<forall>x \<in> set post. dedupKey x = dedupKey y \<longrightarrow> mi_confidence x \<le> mi_confidence y))"
proof -
  define raw where "raw = buildMemoryRowsFromText objectiveText @ buildMemoryRowsFromText responseText"
  define rows where "rows = dedupRows raw"
  define out where "out = ingestMemorySignals sha1hex userId rid objectiveText responseText s"
  have empty: "rows = []" if "raw = []"
    using that by (simp add: rows_def dedupRows_def)
  have snd_out: "snd out = fold (\<lambda>row st. upsertMemoryRecord (stableRow sha1hex userId rid row) st) rows s"
    using empty by (auto simp: out_def ingestMemorySignals_def Let_def raw_def rows_def)
  have fst_out: "fst out = length rows"
    using empty by (auto simp: out_def ingestMemorySignals_def Let_def raw_def rows_def)
  have keyed: "memoryKeyed sha1hex (snd out)"
    unfolding snd_out by (rule fold_upsert_keyed[OF assms])
  have uniq: "r1 = r2"
    if "r1 \<in> set (memory_records (snd out))" "r2 \<in> set (memory_records (snd out))"
       "user_id r1 = user_id r2 \<and> category r1 = category r2 \<and> key r1 = key r2" for r1 r2
    using keyed_unique[OF keyed that(1,2)] that(3) by blast
  have wins: "storedAs (deterministicMemoryId sha1hex userId (mi_category (rows ! i)) (mi_key (rows ! i)))
                (mi_value (rows ! i)) (mi_confidence (rows ! i)) (snd out)"
    if "i < length rows"
       "\<forall>j < length rows. i < j \<longrightarrow>
           deterministicMemoryId sha1hex userId (mi_category (rows ! j)) (mi_key (rows ! j))
             \<noteq> deterministicMemoryId sha1hex userId (mi_category (rows ! i)) (mi_key (rows ! i))" for i
    unfolding snd_out using that by (rule fold_upsert_last_wins)
  have order: "map dedupKey (dedupRows rawRows) = rev (remdups (rev (map dedupKey rawRows)))"
    by (rule dedupRows_keys)
  have best: "\<exists>pre post. rawRows = pre @ y # post
                \<and> (\<forall>x \<in> set pre. dedupKey x = dedupKey y \<longrightarrow> mi_confidence x < mi_confidence y)
                \<and> (\<forall>x \<in> set post. dedupKey x = dedupKey y \<longrightarrow> mi_confidence x \<le> mi_confidence y)"
    if "y \<in> set (dedupRows rawRows)" for y
    using that by (rule dedupRows_best)
  from keyed uniq fst_out wins order best show ?thesis
    unfolding Let_def out_def[symmetric] raw_def[symmetric] rows_def[symmetric]
    by blast
qed

lemma first_turn_records:
  "memory_records after_first_turn =
     [\<lparr>record_id = ''mem_u1:preferences:p'', user_id = ''u1'', category = ''preferences'',
       key = ''preference'', val = ''to always use tabs'', confidence = 0.95,
       source_run_id = ''run_1'', mem_created_at = 1000, mem_updated_at = 1000\<rparr>]"
  by code_simp

lemma second_turn_objective:
  "buildMemoryRowsFromText ''I prefer spaces'' = [memoryRow ''preferences'' ''preference'' ''spaces'' 0.85]"
  by code_simp

lemma second_turn_response:
  "buildMemoryRowsFromText ''Noted.'' = []"
  by code_simp

lemma second_turn_rows:
  "dedupRows (buildMemoryRowsFromText ''I prefer spaces'' @ buildMemoryRowsFromText ''Noted.'')
     = [memoryRow ''preferences'' ''preference'' ''spaces'' 0.85]"
  by (simp add: second_turn_objective second_turn_response dedupRows_def dedupStep_def)

lemma second_turn_records:
  "memory_records after_second_turn =
     [\<lparr>record_id = ''mem_u1:preferences:p'', user_id = ''u1'', category = ''preferences'',
       key = ''preference'', val = ''spaces'', confidence = 0.85,
       source_run_id = ''run_2'', mem_created_at = 1000, mem_updated_at = 2000\<rparr>]"
proof -
  have idOf: "deterministicMemoryId toy_sha ''u1'' ''preferences'' ''preference'' = ''mem_u1:preferences:p''"
    by code_simp
  show ?thesis
    unfolding after_second_turn_def ingestMemorySignals_def Let_def second_turn_rows
    by (simp add: second_turn_objective second_turn_response first_turn_records
          upsertMemoryRecord_def upsert_def stableRow_def memoryRow_def idOf coalesce_def now_def)
qed

theorem memory_newer_ingest_wins_witness:
  "memoryKeyed toy_sha after_second_turn
   \<and> storedAs ''mem_u1:preferences:p'' ''spaces'' 0.85 after_second_turn
   \<and> dedupRows [memoryRow ''preferences'' ''preference'' ''Tabs'' 0.85,
                memoryRow ''workflows'' ''workflow'' ''lint first'' 0.82,
                memoryRow ''preferences'' ''preference'' ''tabs'' 0.95,
                memoryRow ''preferences'' ''preference'' ''TABS'' 0.95]
       = [memoryRow ''preferences'' ''preference'' ''tabs'' 0.95,
          memoryRow ''workflows'' ''workflow'' ''lint first'' 0.82]"
proof -
  have idOf: "deterministicMemoryId toy_sha ''u1'' ''preferences'' ''preference'' = ''mem_u1:preferences:p''"
    by code_simp
  have keyed1: "memoryKeyed toy_sha (after_first_turn\<lparr>clock := 2000\<rparr>)"
    by (simp add: memoryKeyed_def first_turn_records idOf)
  have kept: "dedupRows [memoryRow ''preferences'' ''preference'' ''Tabs'' 0.85,
                memoryRow ''workflows'' ''workflow'' ''lint first'' 0.82,
                memoryRow ''preferences'' ''preference'' ''tabs'' 0.95,
                memoryRow ''preferences'' ''preference'' ''TABS'' 0.95]
       = [memoryRow ''preferences'' ''preference'' ''tabs'' 0.95,
          memoryRow ''workflows'' ''workflow'' ''lint first'' 0.82]"
    by code_simp
  have "memoryKeyed toy_sha after_second_turn
        \<and> storedAs ''mem_u1:preferences:p'' ''spaces'' 0.85 after_second_turn"
    using memory_newer_ingest_wins[OF keyed1, where userId = "''u1''" and rid = "''run_2''"
            and objectiveText = "''I prefer spaces''" and responseText = "''Noted.''"
            and rawRows = "[]"]
    unfolding Let_def second_turn_rows after_second_turn_def[symmetric]
    by (simp add: memoryRow_def idOf)
  with kept show ?thesis by blast
qed

text \<open>
  The claim as stated fails: the first turn stores a preference with confidence 0.95,
  the second turn's preference has confidence 0.85 and replaces it.
\<close>

theorem memory_lower_confidence_counterexample:
  "map record_id (memory_records after_first_turn) = [''mem_u1:preferences:p'']
   \<and> map val (memory_records after_first_turn) = [''to always use tabs'']
   \<and> map confidence (memory_records after_first_turn) = [0.95]
   \<and> map record_id (memory_records after_second_turn) = [''mem_u1:preferences:p'']
   \<and> map val (memory_records after_second_turn) = [''spaces'']
   \<and> map confidence (memory_records after_second_turn) = [0.85]"
  by (simp add: first_turn_records second_turn_records)

section \<open>The smoke tests, replayed on the model\<close>

text \<open>
  The test runner of the repository expects: \<open>npm --version\<close> needs approval before the
  permission is granted and completes after; a stated preference is ingested as one
  memory record; a remembered pending message is read back and is gone once cleared.
\<close>

lemma smoke_tooling_requires_approval:
  "te_status (fst (executeToolingTask quiet_env smoke_request empty_state)) = needs_approval
   \<and> te_requestId (fst (executeToolingTask quiet_env smoke_request empty_state)) = Some ''perm_0b5e''"
  by code_simp

lemma smoke_tooling_executes_after_grant:
  "te_status (fst (executeToolingTask quiet_env smoke_request granted_state)) = completed
   \<and> spawned (snd (executeToolingTask quiet_env smoke_request granted_state)) = [(''npm'', [''--version''])]"
  by code_simp

lemma smoke_memory_ingest:
  "fst (ingestMemorySignals toy_sha ''u1'' ''run_memory''
          ''I prefer concise bullet updates. Remember this preference.''
          ''Acknowledged and stored your preference.'' empty_state) = 1"
  by code_simp

lemma smoke_pending_read_clear:
  "map_option dp_chatRef (fst (readPendingMessage ''whatsapp'' ''msg_harness_test'' smoke_pending_state))
     = Some ''123@c.us''
   \<and> fst (readPendingMessage ''whatsapp'' ''msg_harness_test''
             (clearPendingMessage ''msg_harness_test'' smoke_pending_state)) = None"
  by code_simp

end
